theory Spec2Isabelle
  imports Complex_Main "HOL-Library.Sublist"
begin

section \<open>Monte Carlo estimation of pi: the sampling and animation loop of main.py\<close>

text \<open>
  The program draws uniform points in the square, counts those inside the unit circle and
  animates a subsample of them. Its loop interleaves sampling with a user interface driven
  by four buttons. The model below follows \<^verbatim>\<open>monte_carlo_pi_animation\<close> and
  \<^verbatim>\<open>main\<close> statement by statement.

  Modelling decisions:
  \<^item> Python integers are \<open>int\<close>. The running count \<open>inside_total\<close> becomes a numpy
    64-bit scalar after the first batch; it is bounded by \<open>samples_done\<close>, and the model
    takes it as an unbounded integer.
  \<^item> Coordinates are floating-point numbers in the program and real numbers here; the
    test \<open>x**2 + y**2 <= 1\<close> is taken exactly.
  \<^item> The random generator is an infinite stream \<open>rnd\<close> of coordinates; a call
    \<^verbatim>\<open>np.random.uniform(-1, 1, n)\<close> takes the next \<open>n\<close> values of it and raises
    \<open>ValueError\<close> for a negative \<open>n\<close>.
  \<^item> The user and the window system act only inside \<^verbatim>\<open>plt.pause\<close>: each pause
    receives the button clicks delivered during it, in order, and whether the window has
    been closed. A run is driven by the finite list of these pause inputs.
  \<^item> The calls to the generator and the divisions computing the estimate are recorded
    in a list of effects, so that statements about them can be made directly.
  \<^item> The figure window is open, closed by the user (which the loop notices after a
    pause) or closed by the program.
  \<^item> A string is the list of its code points. \<^verbatim>\<open>int\<close> is that of CPython 3.11
    with the tables of Unicode 14.0 and at most 4300 digits.
  \<^item> The command line is read by the library \<^verbatim>\<open>argparse\<close>; what it returned, or
    the status with which it ended the program, is an input of \<^verbatim>\<open>main\<close>.
  \<^item> The interrupt from the keyboard, which the script catches, is not modelled.
\<close>

subsection \<open>Data\<close>

datatype color = Blue | Red

type_synonym point = "real \<times> real \<times> color"

datatype estimate = NaN | Value real

datatype py_error = ValueError | IndexError

record state =
  inside_total :: int
  samples_done :: int
  running :: bool
  disp_x :: "real list"
  disp_y :: "real list"
  disp_colors :: "color list"
  point_queue :: "point list"
  ax_visible :: bool
  circle_visible :: bool
  stop_visible :: bool
  resume_visible :: bool
  restart_visible :: bool
  start_visible :: bool
  scatter_offsets :: "(real \<times> real) list"
  scatter_colors :: "color list"
  pi_text :: "estimate option"
  samples_text :: "(int \<times> int) option"

text \<open>
  \<open>pi_text = None\<close> and \<open>samples_text = None\<close> stand for the empty string; \<open>Some (d, n)\<close>
  is the text \<^verbatim>\<open>Samples: d / n\<close>.
\<close>

datatype action = Start | Stop | Resume | Restart

record pause_input =
  clicks :: "action list"
  window_closed :: bool

datatype effect =
    Drew int int int int
  | Divided int int

text \<open>
  \<open>Drew b k i d\<close>: a batch of \<open>b\<close> points was drawn, \<open>k\<close> of them inside the circle,
  leaving \<open>inside_total = i\<close> and \<open>samples_done = d\<close>. \<open>Divided i d\<close>: the estimate
  \<open>(i / d) * 4\<close> was computed.
\<close>

datatype outcome = Crashed py_error | WindowClosed | SamplesExhausted | AwaitingEvents

datatype window = Open | ClosedByUser | ClosedByProgram

record run =
  outcome :: outcome
  effects :: "effect list"
  final :: state
  window :: window

text \<open>
  A run of the loop on the pause inputs given: how it ended, what it did, the variables and
  the figure window at that point. \<open>AwaitingEvents\<close> is a loop that has consumed all the
  inputs given and has not ended.
\<close>

subsection \<open>Batch size\<close>

definition default_batch_size :: "int \<Rightarrow> int" where
  "default_batch_size num_samples =
     (if num_samples \<le> 1000000 then 10000
      else if num_samples \<le> 10000000 then 100000
      else if num_samples \<le> 100000000 then 1000000
      else 5000000)"

definition effective_batch_size :: "int \<Rightarrow> int option \<Rightarrow> int" where
  "effective_batch_size num_samples batch_size =
     (case batch_size of None \<Rightarrow> default_batch_size num_samples | Some b \<Rightarrow> b)"

subsection \<open>The button callbacks\<close>

definition initial_state :: state where
  "initial_state =
     \<lparr>inside_total = 0, samples_done = 0, running = False,
      disp_x = [], disp_y = [], disp_colors = [], point_queue = [],
      ax_visible = False, circle_visible = False,
      stop_visible = False, resume_visible = False, restart_visible = False,
      start_visible = True,
      scatter_offsets = [], scatter_colors = [],
      pi_text = None, samples_text = None\<rparr>"

definition stop :: "state \<Rightarrow> state" where
  "stop s = s\<lparr>running := False\<rparr>"

definition resume :: "state \<Rightarrow> state" where
  "resume s = s\<lparr>running := True\<rparr>"

definition restart :: "state \<Rightarrow> state" where
  "restart s =
     s\<lparr>inside_total := 0, samples_done := 0,
       disp_x := [], disp_y := [], disp_colors := [], point_queue := [],
       running := False,
       scatter_offsets := [], scatter_colors := [],
       pi_text := None, samples_text := None,
       start_visible := True, stop_visible := False, resume_visible := False,
       restart_visible := False,
       circle_visible := False, ax_visible := False\<rparr>"

definition start :: "state \<Rightarrow> state" where
  "start s =
     s\<lparr>running := True,
       start_visible := False, stop_visible := True, resume_visible := True,
       restart_visible := True,
       circle_visible := True, ax_visible := True\<rparr>"

fun on_clicked :: "action \<Rightarrow> state \<Rightarrow> state" where
  "on_clicked Start s = start s"
| "on_clicked Stop s = stop s"
| "on_clicked Resume s = resume s"
| "on_clicked Restart s = restart s"

definition pause :: "pause_input \<Rightarrow> state \<Rightarrow> state" where
  "pause e s = fold on_clicked (clicks e) s"


subsection \<open>One batch\<close>

text \<open>
  \<^verbatim>\<open>range(start, stop, step)\<close> for a positive step, which is all the program uses
  (\<open>step = max(1, \<dots>)\<close>).
\<close>

function py_range :: "int \<Rightarrow> int \<Rightarrow> int \<Rightarrow> int list" where
  "py_range i n step =
     (if 0 < step \<and> i < n then i # py_range (i + step) n step else [])"
  by pat_completeness auto
termination
  by (relation "measure (\<lambda>(i, n, step). nat (n - i))") auto

definition in_circle :: "real \<Rightarrow> real \<Rightarrow> bool" where
  "in_circle x y = (x\<^sup>2 + y\<^sup>2 \<le> 1)"

definition tagged :: "real list \<Rightarrow> real list \<Rightarrow> bool list \<Rightarrow> int \<Rightarrow> point" where
  "tagged x y inside i =
     (x ! nat i, y ! nat i, if inside ! nat i then Blue else Red)"

definition sample_batch ::
  "int \<Rightarrow> int \<Rightarrow> (nat \<Rightarrow> real) \<Rightarrow> state
     \<Rightarrow> py_error + (effect list \<times> (nat \<Rightarrow> real) \<times> state)" where
  "sample_batch num_samples batch_size rnd s =
     (let current_batch = min batch_size (num_samples - samples_done s) in
      if current_batch < 0 then Inl ValueError
      else
        let n = nat current_batch;
            x = map rnd [0..<n];
            y = map rnd [n..<2 * n];
            inside = map2 in_circle x y;
            k = int (length (filter id inside));
            step = max 1 (current_batch div 200);
            s' = s\<lparr>inside_total := inside_total s + k,
                   samples_done := samples_done s + current_batch,
                   point_queue := point_queue s
                     @ map (tagged x y inside) (py_range 0 current_batch step)\<rparr>
        in Inr ([Drew current_batch k (inside_total s') (samples_done s')],
                (\<lambda>j. rnd (j + 2 * n)), s'))"

subsection \<open>Draining and rendering\<close>

fun drain :: "nat \<Rightarrow> state \<Rightarrow> py_error + state" where
  "drain 0 s = Inr s"
| "drain (Suc c) s =
     (case point_queue s of
        [] \<Rightarrow> Inl IndexError
      | (px, py, color) # rest \<Rightarrow>
          drain c (s\<lparr>point_queue := rest,
                     disp_x := disp_x s @ [px],
                     disp_y := disp_y s @ [py],
                     disp_colors := disp_colors s @ [color]\<rparr>))"

definition render :: "int \<Rightarrow> state \<Rightarrow> effect list \<times> state" where
  "render num_samples s =
     (let pi_estimate =
            (if samples_done s = 0 then NaN
             else Value (real_of_int (inside_total s) / real_of_int (samples_done s) * 4))
      in ([Divided (inside_total s) (samples_done s)],
          s\<lparr>scatter_offsets := zip (disp_x s) (disp_y s),
            scatter_colors := disp_colors s,
            pi_text := Some pi_estimate,
            samples_text := Some (samples_done s, num_samples)\<rparr>))"

definition tick_body ::
  "int \<Rightarrow> int \<Rightarrow> (nat \<Rightarrow> real) \<Rightarrow> state
     \<Rightarrow> py_error + (effect list \<times> (nat \<Rightarrow> real) \<times> state)" where
  "tick_body num_samples batch_size rnd s =
     (case (if length (point_queue s) = 0 then sample_batch num_samples batch_size rnd s
            else Inr ([], rnd, s)) of
        Inl err \<Rightarrow> Inl err
      | Inr (drawn, rnd', s1) \<Rightarrow>
          (case drain (min 100 (length (point_queue s1))) s1 of
             Inl err \<Rightarrow> Inl err
           | Inr s2 \<Rightarrow>
               (case render num_samples s2 of
                  (divided, s3) \<Rightarrow> Inr (drawn @ divided, rnd', s3))))"

subsection \<open>The loop\<close>

fun main_loop ::
  "int \<Rightarrow> int \<Rightarrow> (nat \<Rightarrow> real) \<Rightarrow> effect list \<Rightarrow> state \<Rightarrow> pause_input list \<Rightarrow> run" where
  "main_loop num_samples batch_size rnd tr s [] =
     (if running s \<and> num_samples \<le> samples_done s
      then \<lparr>outcome = SamplesExhausted, effects = tr, final = s\<lparr>running := False\<rparr>,
            window = Open\<rparr>
      else \<lparr>outcome = AwaitingEvents, effects = tr, final = s, window = Open\<rparr>)"
| "main_loop num_samples batch_size rnd tr s (e # es) =
     (if \<not> running s then
        (let s' = pause e s in
         if window_closed e
         then \<lparr>outcome = WindowClosed, effects = tr, final = s', window = ClosedByUser\<rparr>
         else main_loop num_samples batch_size rnd tr s' es)
      else if num_samples \<le> samples_done s then
        \<lparr>outcome = SamplesExhausted, effects = tr, final = s\<lparr>running := False\<rparr>,
         window = Open\<rparr>
      else
        (case tick_body num_samples batch_size rnd s of
           Inl err \<Rightarrow> \<lparr>outcome = Crashed err, effects = tr, final = s, window = Open\<rparr>
         | Inr (effs, rnd', s1) \<Rightarrow>
             (let s2 = pause e s1 in
              if window_closed e
              then \<lparr>outcome = WindowClosed, effects = tr @ effs, final = s2,
                    window = ClosedByUser\<rparr>
              else main_loop num_samples batch_size rnd' (tr @ effs) s2 es)))"

text \<open>
  After the loop the function closes the figure, \<^verbatim>\<open>plt.close(fig)\<close>, and returns. The
  statement is reached when the loop was left by one of its \<^verbatim>\<open>break\<close>s; an exception
  passes it by.
\<close>

definition plt_close :: "run \<Rightarrow> run" where
  "plt_close r = (if window r = Open then r\<lparr>window := ClosedByProgram\<rparr> else r)"

definition monte_carlo_pi_animation ::
  "int \<Rightarrow> int option \<Rightarrow> (nat \<Rightarrow> real) \<Rightarrow> pause_input list \<Rightarrow> run" where
  "monte_carlo_pi_animation num_samples batch_size rnd es =
     (let r = main_loop num_samples (effective_batch_size num_samples batch_size) rnd []
                initial_state es
      in if outcome r = WindowClosed \<or> outcome r = SamplesExhausted then plt_close r else r)"

subsection \<open>The command line\<close>

text \<open>
  A Python string is the list of its code points; \<open>ascii\<close> turns a literal into one.
\<close>

type_synonym py_str = "nat list"

definition ascii :: "string \<Rightarrow> py_str" where
  "ascii s = map of_char s"

text \<open>
  \<^verbatim>\<open>int(text)\<close>, as CPython 3.11 computes it in base ten with its default settings.
  The characters from code point 127 on are first translated into ASCII: Unicode white
  space becomes a blank, a Unicode decimal digit becomes the ASCII digit of its value and
  anything else a question mark, which no number contains. The tables are those of Unicode
  14.0: the white space above ASCII, and the code points of the digits zero, each followed
  by its digits one to nine.
\<close>

definition unicode_space :: "nat \<Rightarrow> bool" where
  "unicode_space c =
     (c \<in> set [133, 160, 5760, 8232, 8233, 8239, 8287, 12288] \<or> (8192 \<le> c \<and> c \<le> 8202))"

definition decimal_zeros :: "nat list" where
  "decimal_zeros =
     [1632, 1776, 1984, 2406, 2534, 2662, 2790, 2918, 3046, 3174, 3302, 3430, 3558, 3664,
      3792, 3872, 4160, 4240, 6112, 6160, 6470, 6608, 6784, 6800, 6992, 7088, 7232, 7248,
      42528, 43216, 43264, 43472, 43504, 43600, 44016, 65296, 66720, 68912, 69734, 69872,
      69942, 70096, 70384, 70736, 70864, 71248, 71360, 71472, 71904, 72016, 72784, 73040,
      73120, 92768, 92864, 93008, 120782, 120792, 120802, 120812, 120822, 123200, 123632,
      125264, 130032]"

definition unicode_decimal :: "nat \<Rightarrow> nat option" where
  "unicode_decimal c =
     (case filter (\<lambda>z. z \<le> c \<and> c < z + 10) decimal_zeros of
        [] \<Rightarrow> None
      | z # zs \<Rightarrow> Some (c - z))"

definition to_ascii :: "nat \<Rightarrow> nat" where
  "to_ascii c =
     (if c < 127 then c
      else if unicode_space c then 32
      else (case unicode_decimal c of None \<Rightarrow> 63 | Some d \<Rightarrow> 48 + d))"

text \<open>
  The translated text is then scanned: white space (the six ASCII characters only), one
  optional sign, digits in which single underscores may stand between two digits, white
  space, and the end of the text. More than 4300 digits are refused. Every failure raises
  \<open>ValueError\<close>, here \<open>None\<close>.
\<close>

definition is_space :: "nat \<Rightarrow> bool" where
  "is_space c = (c = 32 \<or> (9 \<le> c \<and> c \<le> 13))"

definition is_digit :: "nat \<Rightarrow> bool" where
  "is_digit c = (48 \<le> c \<and> c \<le> 57)"

definition digit_value :: "nat \<Rightarrow> int" where
  "digit_value c = int c - 48"

definition in_number :: "nat \<Rightarrow> bool" where
  "in_number c = (is_digit c \<or> c = 95)"

fun grouped :: "nat list \<Rightarrow> bool" where
  "grouped [] = False"
| "grouped [c] = is_digit c"
| "grouped (c # d # r) = (is_digit c \<and> (if d = 95 then grouped r else grouped (d # r)))"

definition max_str_digits :: nat where
  "max_str_digits = 4300"

definition py_int :: "py_str \<Rightarrow> int option" where
  "py_int s =
     (let t = dropWhile is_space (map to_ascii s);
          (sign, u) =
            (case t of
               [] \<Rightarrow> (1, [])
             | c # r \<Rightarrow>
                 if c = 43 then (1, r)
                 else if c = 45 then (- 1, r)
                 else (1, t));
          body = takeWhile in_number u;
          rest = dropWhile in_number u;
          ds = filter is_digit body
      in if \<not> grouped body \<or> max_str_digits < length ds \<or> \<not> list_all is_space rest
         then None
         else Some (sign * foldl (\<lambda>a c. 10 * a + digit_value c) 0 ds))"

text \<open>\<^verbatim>\<open>text.replace(c, '')\<close> for a single character \<open>c\<close>.\<close>

definition remove_char :: "nat \<Rightarrow> py_str \<Rightarrow> py_str" where
  "remove_char c s = filter (\<lambda>d. d \<noteq> c) s"

text \<open>
  \<^verbatim>\<open>main\<close> begins with \<^verbatim>\<open>parser.parse_args()\<close>. The library either ends the program
  itself, with an exit status (2 after a usage error, 0 after printing the help), or
  returns the values of \<^verbatim>\<open>--samples\<close>, a string, and of \<^verbatim>\<open>--batch\<close>, an integer or
  \<^verbatim>\<open>None\<close>. Which command lines it accepts is the library's matter; what it did is an
  input of the model. A command line such as \<^verbatim>\<open>--samples -1,000\<close>, whose value looks like
  an option, ends in a usage error; \<^verbatim>\<open>--samples=-1,000\<close> hands the value to \<^verbatim>\<open>main\<close>.
\<close>

datatype parse_args_result = Exits int | Namespace py_str "int option"

datatype main_result = SystemExit int | Printed string | Ran run

definition main ::
  "parse_args_result \<Rightarrow> (nat \<Rightarrow> real) \<Rightarrow> pause_input list \<Rightarrow> main_result" where
  "main args rnd es =
     (case args of
        Exits status \<Rightarrow> SystemExit status
      | Namespace samples_arg batch_arg \<Rightarrow>
          (case py_int (remove_char 95 (remove_char 44 samples_arg)) of
             None \<Rightarrow> Printed ''Invalid number of samples provided.''
           | Some samples \<Rightarrow>
               if samples \<le> 0 then Printed ''Invalid number of samples provided.''
               else Ran (monte_carlo_pi_animation samples batch_arg rnd es)))"

text \<open>
  The script calls \<^verbatim>\<open>main\<close> and catches the keyboard interrupt only, which is not part
  of this model. The exit status of the process is then 0 when \<^verbatim>\<open>main\<close> returns, the
  status of the library when that ended the program, and 1 when an exception escapes; a
  loop that has not ended has no exit status yet.
\<close>

definition exit_status :: "main_result \<Rightarrow> int option" where
  "exit_status r =
     (case r of
        SystemExit status \<Rightarrow> Some status
      | Printed text \<Rightarrow> Some 0
      | Ran r \<Rightarrow>
          (case outcome r of
             Crashed err \<Rightarrow> Some 1
           | AwaitingEvents \<Rightarrow> None
           | WindowClosed \<Rightarrow> Some 0
           | SamplesExhausted \<Rightarrow> Some 0))"

subsection \<open>Notions used in the statements\<close>

text \<open>
  The full batch of \<open>n\<close> points drawn from \<open>rnd\<close>, in generation order, each with its
  classification; the number of them inside the circle; and the points of the batch at
  the indices \<open>0, step, 2 * step, \<dots>\<close> for \<open>step = max 1 (b div 200)\<close>.
\<close>

definition batch_points :: "nat \<Rightarrow> (nat \<Rightarrow> real) \<Rightarrow> point list" where
  "batch_points n rnd =
     map (\<lambda>i. (rnd i, rnd (n + i), if in_circle (rnd i) (rnd (n + i)) then Blue else Red))
       [0..<n]"

definition inside_count :: "nat \<Rightarrow> (nat \<Rightarrow> real) \<Rightarrow> int" where
  "inside_count n rnd = int (length (filter (\<lambda>p. snd (snd p) = Blue) (batch_points n rnd)))"

definition subsample_size :: "int \<Rightarrow> nat" where
  "subsample_size b = nat (- ((- b) div max 1 (b div 200)))"

definition subsample :: "int \<Rightarrow> (nat \<Rightarrow> real) \<Rightarrow> point list" where
  "subsample b rnd =
     map (\<lambda>j. batch_points (nat b) rnd ! (j * nat (max 1 (b div 200))))
       [0..<subsample_size b]"

text \<open>The batches of a run: size and \<open>samples_done\<close> after each; and its divisions.\<close>

fun draws :: "effect list \<Rightarrow> (int \<times> int) list" where
  "draws [] = []"
| "draws (Drew b k i d # tr) = (b, d) # draws tr"
| "draws (Divided i d # tr) = draws tr"

fun divisions :: "effect list \<Rightarrow> (int \<times> int) list" where
  "divisions [] = []"
| "divisions (Drew b k i d # tr) = divisions tr"
| "divisions (Divided i d # tr) = (i, d) # divisions tr"

fun stats_ok :: "int \<Rightarrow> effect \<Rightarrow> bool" where
  "stats_ok n (Drew b k i d) = (0 \<le> k \<and> k \<le> b \<and> 0 \<le> i \<and> i \<le> d \<and> d \<le> n)"
| "stats_ok n (Divided i d) = (0 \<le> i \<and> i \<le> d \<and> d \<le> n)"

text \<open>
  The controller state of the specification. A run has finished when its loop has ended
  with the samples exhausted; otherwise the state is read off the program's variables: the
  loop samples exactly when \<open>running\<close> holds, and the start button is shown exactly before
  the first start and after a restart.
\<close>

datatype controller_state = Idle | Running | Paused | Finished

definition controller_state :: "run \<Rightarrow> controller_state" where
  "controller_state r =
     (if outcome r = SamplesExhausted then Finished
      else if running (final r) then Running
      else if start_visible (final r) then Idle
      else Paused)"





text \<open>Pause inputs: one click, or nothing; the window stays open.\<close>

definition click :: "action \<Rightarrow> pause_input" where
  "click a = \<lparr>clicks = [a], window_closed = False\<rparr>"

definition idle :: pause_input where
  "idle = \<lparr>clicks = [], window_closed = False\<rparr>"

definition zero_rng :: "nat \<Rightarrow> real" where
  "zero_rng = (\<lambda>j. 0)"

subsection \<open>The loop on counters only\<close>

text \<open>
  Whether the loop samples, waits or exits depends only on \<open>running\<close>, \<open>samples_done\<close> and
  the length of the queue. The loop on these three counters is shown below to agree with
  \<open>main_loop\<close>; it is what the scenarios with many thousands of points are computed on.
\<close>

type_synonym counts = "bool \<times> int \<times> nat"

definition counts_of :: "state \<Rightarrow> counts" where
  "counts_of s = (running s, samples_done s, length (point_queue s))"

fun count_click :: "action \<Rightarrow> counts \<Rightarrow> counts" where
  "count_click Start (r, d, q) = (True, d, q)"
| "count_click Stop (r, d, q) = (False, d, q)"
| "count_click Resume (r, d, q) = (True, d, q)"
| "count_click Restart (r, d, q) = (False, 0, 0)"

definition count_tick :: "int \<Rightarrow> int \<Rightarrow> counts \<Rightarrow> py_error + ((int \<times> int) list \<times> counts)" where
  "count_tick num_samples batch_size c =
     (case c of (r, d, q) \<Rightarrow>
        if q = 0 then
          (let b = min batch_size (num_samples - d) in
           if b < 0 then Inl ValueError
           else Inr ([(b, d + b)], (r, d + b, subsample_size b - min 100 (subsample_size b))))
        else Inr ([], (r, d, q - min 100 q)))"

fun count_loop ::
  "int \<Rightarrow> int \<Rightarrow> (int \<times> int) list \<Rightarrow> counts \<Rightarrow> pause_input list
     \<Rightarrow> outcome \<times> (int \<times> int) list \<times> counts" where
  "count_loop num_samples batch_size ds (r, d, q) [] =
     (if r \<and> num_samples \<le> d then (SamplesExhausted, ds, (False, d, q))
      else (AwaitingEvents, ds, (r, d, q)))"
| "count_loop num_samples batch_size ds (r, d, q) (e # es) =
     (if \<not> r then
        (let c' = fold count_click (clicks e) (r, d, q) in
         if window_closed e then (WindowClosed, ds, c')
         else count_loop num_samples batch_size ds c' es)
      else if num_samples \<le> d then (SamplesExhausted, ds, (False, d, q))
      else
        (case count_tick num_samples batch_size (r, d, q) of
           Inl err \<Rightarrow> (Crashed err, ds, (r, d, q))
         | Inr (new, c1) \<Rightarrow>
             (let c2 = fold count_click (clicks e) c1 in
              if window_closed e then (WindowClosed, ds @ new, c2)
              else count_loop num_samples batch_size (ds @ new) c2 es)))"

subsection \<open>The invariant of the loop\<close>

text \<open>
  What holds of the program's variables between two iterations of the loop, for a target
  of \<open>n\<close> samples.
\<close>

definition stats_inv :: "int \<Rightarrow> state \<Rightarrow> bool" where
  "stats_inv n s =
     (0 \<le> inside_total s \<and> inside_total s \<le> samples_done s \<and> samples_done s \<le> n
      \<and> length (point_queue s) \<le> 299
      \<and> (point_queue s = [] \<or> 1 \<le> samples_done s))"

section \<open>Basic facts about the pieces of the loop\<close>

subsection \<open>The range, the drain loop, subsequences of an index range\<close>

lemma py_range_closed:
  "0 < st \<Longrightarrow> py_range i n st = map (\<lambda>k. i + int k * st) [0..<nat (- ((i - n) div st))]"
proof (induction i n st rule: py_range.induct)
  case (1 i n st)
  show ?case
  proof (cases "i < n")
    case True
    have neg: "(i - n) div st < 0" using True 1(2) by (simp add: div_neg_pos_less0)
    have e: "i + st - n = (i - n) + st" by simp
    have "st \<noteq> 0" using 1(2) by simp
    then have "(i - n + st) div st = (i - n) div st + 1" by (rule div_add_self2)
    then have step: "(i + st - n) div st = (i - n) div st + 1"
      by (simp only: e)
    define c where "c = nat (- ((i + st - n) div st))"
    have c1: "nat (- ((i - n) div st)) = Suc c"
      using neg step unfolding c_def by simp
    have IH: "py_range (i + st) n st = map (\<lambda>k. i + st + int k * st) [0..<c]"
      using 1(1) True 1(2) unfolding c_def by simp
    have "[0..<Suc c] = 0 # map Suc [0..<c]"
      by (simp add: upt_conv_Cons map_Suc_upt del: upt_Suc)
    then show ?thesis using True 1(2) IH c1
      by (simp add: algebra_simps del: upt_Suc)
  next
    case False
    then have "0 \<le> (i - n) div st" using 1(2) by (simp add: pos_imp_zdiv_nonneg_iff)
    then show ?thesis using False by simp
  qed
qed

lemma drain_closed:
  "c \<le> length (point_queue s) \<Longrightarrow>
   drain c s = Inr (s\<lparr>point_queue := drop c (point_queue s),
                      disp_x := disp_x s @ map fst (take c (point_queue s)),
                      disp_y := disp_y s @ map (fst \<circ> snd) (take c (point_queue s)),
                      disp_colors := disp_colors s @ map (snd \<circ> snd) (take c (point_queue s))\<rparr>)"
proof (induction c arbitrary: s)
  case 0
  then show ?case by simp
next
  case (Suc c)
  then obtain p rest where q: "point_queue s = p # rest" by (cases "point_queue s") auto
  obtain px py col where p: "p = (px, py, col)" by (cases p) auto
  show ?case using Suc q p by simp
qed


lemma subseq_strict_sorted_upt:
  "sorted_wrt (<) (js::nat list) \<Longrightarrow> \<forall>j\<in>set js. j < n \<Longrightarrow> subseq js [0..<n]"
proof -
  assume a: "sorted_wrt (<) js" "\<forall>j\<in>set js. j < n"
  have "js = filter (\<lambda>j. j \<in> set js) [0..<n]"
  proof (rule sorted_distinct_set_unique)
    show "sorted js" "distinct js" using a(1) strict_sorted_iff by auto
    show "sorted (filter (\<lambda>j. j \<in> set js) [0..<n])" by (simp add: sorted_wrt_filter)
    show "distinct (filter (\<lambda>j. j \<in> set js) [0..<n])" by simp
    show "set js = set (filter (\<lambda>j. j \<in> set js) [0..<n])" using a(2) by auto
  qed
  then show ?thesis by (metis subseq_filter_left)
qed

subsection \<open>One batch\<close>

lemma inside_flags:
  "map2 in_circle (map rnd [0..<n]) (map rnd [n..<2 * n])
     = map (\<lambda>i. in_circle (rnd i) (rnd (n + i))) [0..<n]"
proof -
  have "[n..<2 * n] = map (\<lambda>i. i + n) [0..<n]"
    by (simp add: map_add_upt mult_2)
  then have "map rnd [n..<2 * n] = map (\<lambda>i. rnd (n + i)) [0..<n]"
    by (simp add: add.commute)
  then show ?thesis by (simp add: map2_map_map)
qed

lemma inside_count_flags:
  "int (length (filter id (map (\<lambda>i. in_circle (rnd i) (rnd (n + i))) [0..<n])))
     = inside_count n rnd"
  unfolding inside_count_def batch_points_def
  by (simp add: filter_map comp_def)

lemma inside_count_bounds: "0 \<le> inside_count n rnd" "inside_count n rnd \<le> int n"
proof -
  show "0 \<le> inside_count n rnd" by (simp add: inside_count_def)
  have "length (filter (\<lambda>p. snd (snd p) = Blue) (batch_points n rnd))
          \<le> length (batch_points n rnd)"
    by (rule length_filter_le)
  then show "inside_count n rnd \<le> int n"
    by (simp add: inside_count_def batch_points_def)
qed

lemma subsample_index_in_range:
  assumes "0 \<le> b" "k < subsample_size b"
  shows "k * nat (max 1 (b div 200)) < nat b"
proof -
  define st where "st = max 1 (b div 200)"
  have st: "0 < st" by (simp add: st_def)
  have "int k < - ((- b) div st)"
    using assms(2) unfolding subsample_size_def st_def by simp
  define m where "m = - int k"
  have lt: "(- b) div st < m" using \<open>int k < - ((- b) div st)\<close> by (simp add: m_def)
  have "- b < m * st"
  proof (rule ccontr)
    assume "\<not> - b < m * st"
    then have "m * st \<le> - b" by simp
    then have "(m * st) div st \<le> (- b) div st" using st by (rule zdiv_mono1)
    moreover have "(m * st) div st = m" using st by simp
    ultimately show False using lt by simp
  qed
  then have lt2: "int k * st < b" by (simp add: m_def)
  have st0: "0 \<le> st" using st by simp
  have "int (k * nat st) = int k * int (nat st)" by simp
  also have "\<dots> = int k * st" using st0 by (simp only: int_nat_eq if_True)
  finally have e: "int (k * nat st) = int k * st" .
  have "int (k * nat st) < b" by (simp only: e lt2)
  then have "k * nat st < nat b" using assms(1) by linarith
  then show ?thesis by (simp only: st_def)
qed

lemma batch_points_nth:
  "i < n \<Longrightarrow> batch_points n rnd ! i
     = (rnd i, rnd (n + i), if in_circle (rnd i) (rnd (n + i)) then Blue else Red)"
  by (simp add: batch_points_def)

lemma length_batch_points: "length (batch_points n rnd) = n"
  by (simp add: batch_points_def)

lemma tagged_batch_point:
  assumes "i < n"
  shows "tagged (map rnd [0..<n]) (map rnd [n..<2 * n])
           (map2 in_circle (map rnd [0..<n]) (map rnd [n..<2 * n])) (int i)
         = batch_points n rnd ! i"
proof -
  have "map rnd [n..<2 * n] ! i = rnd (n + i)" using assms by simp
  moreover have "map rnd [0..<n] ! i = rnd i" using assms by simp
  moreover have "map2 in_circle (map rnd [0..<n]) (map rnd [n..<2 * n]) ! i
                   = in_circle (rnd i) (rnd (n + i))"
    using assms by (simp add: inside_flags)
  ultimately show ?thesis using assms
    by (simp only: tagged_def nat_int batch_points_nth)
qed

lemma py_range_subsample:
  "py_range 0 b (max 1 (b div 200))
     = map (\<lambda>k. int (k * nat (max 1 (b div 200)))) [0..<subsample_size b]"
proof -
  have st: "0 < max 1 (b div 200)" by simp
  have "py_range 0 b (max 1 (b div 200))
          = map (\<lambda>k. 0 + int k * max 1 (b div 200)) [0..<nat (- ((0 - b) div max 1 (b div 200)))]"
    using st by (rule py_range_closed)
  then show ?thesis by (simp add: subsample_size_def)
qed

lemma enqueued_subsample:
  assumes "0 \<le> b"
  shows "map (tagged (map rnd [0..<nat b]) (map rnd [nat b..<2 * nat b])
               (map2 in_circle (map rnd [0..<nat b]) (map rnd [nat b..<2 * nat b])))
           (py_range 0 b (max 1 (b div 200)))
         = subsample b rnd"
proof -
  have "\<And>k. k < subsample_size b \<Longrightarrow>
          tagged (map rnd [0..<nat b]) (map rnd [nat b..<2 * nat b])
            (map2 in_circle (map rnd [0..<nat b]) (map rnd [nat b..<2 * nat b]))
            (int (k * nat (max 1 (b div 200))))
          = batch_points (nat b) rnd ! (k * nat (max 1 (b div 200)))"
    using assms by (intro tagged_batch_point subsample_index_in_range)
  then show ?thesis
    by (simp only: py_range_subsample subsample_def map_map comp_def) simp
qed

lemma sample_batch_eq:
  assumes "b = min batch_size (num_samples - samples_done s)" "0 \<le> b"
  shows "sample_batch num_samples batch_size rnd s
         = Inr ([Drew b (inside_count (nat b) rnd)
                   (inside_total s + inside_count (nat b) rnd) (samples_done s + b)],
                (\<lambda>j. rnd (j + 2 * nat b)),
                s\<lparr>inside_total := inside_total s + inside_count (nat b) rnd,
                  samples_done := samples_done s + b,
                  point_queue := point_queue s @ subsample b rnd\<rparr>)"
proof -
  have k: "int (length (filter id (map2 in_circle (map rnd [0..<nat b])
              (map rnd [nat b..<2 * nat b])))) = inside_count (nat b) rnd"
    by (simp only: inside_flags inside_count_flags)
  have nb: "\<not> b < 0" using assms(2) by simp
  show ?thesis
    unfolding sample_batch_def Let_def assms(1) [symmetric]
    by (simp only: nb if_False k enqueued_subsample [OF assms(2)]) simp
qed

lemma sample_batch_negative:
  "min batch_size (num_samples - samples_done s) < 0 \<Longrightarrow>
   sample_batch num_samples batch_size rnd s = Inl ValueError"
  by (simp add: sample_batch_def Let_def)

lemma length_subsample: "length (subsample b rnd) = subsample_size b"
  by (simp add: subsample_def)

lemma subsample_size_ceiling:
  assumes "0 \<le> b"
  shows "int (subsample_size b) = \<lceil>real_of_int b / real_of_int (max 1 (b div 200))\<rceil>"
proof -
  have "(- b) div max 1 (b div 200) \<le> 0"
    using assms by (simp add: div_nonpos_pos_le0)
  then have "int (subsample_size b) = - ((- b) div max 1 (b div 200))"
    by (simp add: subsample_size_def)
  then show ?thesis by (simp only: ceiling_divide_eq_div)
qed

lemma subsample_size_le: "subsample_size b \<le> 399"
proof (cases "b < 200")
  case True
  then have "b div 200 \<le> 0" by simp
  then have "max 1 (b div 200) = 1" by simp
  then have "subsample_size b = nat b" by (simp add: subsample_size_def)
  then show ?thesis using True by simp
next
  case False
  define k where "k = b div 200"
  have k1: "1 \<le> k" using False unfolding k_def by simp
  have "b < 200 * k + 200" unfolding k_def by (simp add: algebra_simps)
  then have "b \<le> 399 * k" using k1 by simp
  define m :: int where "m = - 399"
  have "m * k \<le> - b" using \<open>b \<le> 399 * k\<close> by (simp add: m_def)
  then have "(m * k) div k \<le> (- b) div k" using k1 by (intro zdiv_mono1) simp_all
  moreover have "(m * k) div k = m" using k1 by simp
  ultimately have "- ((- b) div k) \<le> 399" by (simp add: m_def)
  moreover have "max 1 (b div 200) = k" using k1 by (simp add: k_def)
  ultimately show ?thesis by (simp add: subsample_size_def)
qed

lemma subsample_size_zero: "subsample_size 0 = 0"
  by (simp add: subsample_size_def)

lemma subsample_size_pos: "0 < subsample_size b \<Longrightarrow> 1 \<le> b"
proof (rule ccontr)
  assume a: "0 < subsample_size b" "\<not> 1 \<le> b"
  then have "0 \<le> - b" by simp
  then have "0 \<le> (- b) div max 1 (b div 200)" by (simp add: pos_imp_zdiv_nonneg_iff)
  then show False using a(1) by (simp add: subsample_size_def)
qed

lemma strict_sorted_multiples:
  "0 < (st::nat) \<Longrightarrow> sorted_wrt (<) (map (\<lambda>j. j * st) [0..<c])"
  by (simp add: sorted_wrt_map sorted_wrt_iff_nth_less)

lemma subseq_subsample:
  assumes "0 \<le> b"
  shows "subseq (subsample b rnd) (batch_points (nat b) rnd)"
proof -
  define st where "st = nat (max 1 (b div 200))"
  define js where "js = map (\<lambda>j. j * st) [0..<subsample_size b]"
  have st: "0 < st" by (simp add: st_def)
  have "sorted_wrt (<) js" unfolding js_def using st by (rule strict_sorted_multiples)
  moreover have "\<forall>j\<in>set js. j < nat b"
    using subsample_index_in_range [OF assms] by (auto simp: js_def st_def)
  ultimately have "subseq js [0..<nat b]" by (rule subseq_strict_sorted_upt)
  then have "subseq (map ((!) (batch_points (nat b) rnd)) js)
               (map ((!) (batch_points (nat b) rnd)) [0..<nat b])"
    by (rule subseq_map)
  moreover have "map ((!) (batch_points (nat b) rnd)) [0..<nat b] = batch_points (nat b) rnd"
    using map_nth [of "batch_points (nat b) rnd"] by (simp only: length_batch_points)
  moreover have "map ((!) (batch_points (nat b) rnd)) js = subsample b rnd"
    by (simp add: js_def subsample_def st_def comp_def)
  ultimately show ?thesis by simp
qed

subsection \<open>One iteration of the loop\<close>

lemma drain_min:
  "drain (min 100 (length (point_queue s))) s
     = Inr (s\<lparr>point_queue := drop 100 (point_queue s),
              disp_x := disp_x s @ map fst (take 100 (point_queue s)),
              disp_y := disp_y s @ map (fst \<circ> snd) (take 100 (point_queue s)),
              disp_colors := disp_colors s @ map (snd \<circ> snd) (take 100 (point_queue s))\<rparr>)"
proof -
  have le: "min 100 (length (point_queue s)) \<le> length (point_queue s)" by simp
  have t: "take (min 100 (length (point_queue s))) (point_queue s) = take 100 (point_queue s)"
    by (simp add: min_def)
  have d: "drop (min 100 (length (point_queue s))) (point_queue s) = drop 100 (point_queue s)"
    by (simp add: min_def)
  show ?thesis using drain_closed [OF le] by (simp only: t d)
qed

lemma tick_body_queued:
  assumes "point_queue s \<noteq> []"
  shows "\<exists>s'. tick_body num_samples batch_size rnd s
                = Inr ([Divided (inside_total s) (samples_done s)], rnd, s')
           \<and> inside_total s' = inside_total s \<and> samples_done s' = samples_done s
           \<and> running s' = running s
           \<and> point_queue s' = drop 100 (point_queue s)
           \<and> disp_x s' = disp_x s @ map fst (take 100 (point_queue s))
           \<and> disp_y s' = disp_y s @ map (fst \<circ> snd) (take 100 (point_queue s))
           \<and> disp_colors s' = disp_colors s @ map (snd \<circ> snd) (take 100 (point_queue s))"
  using assms by (simp add: tick_body_def drain_min render_def Let_def)

lemma tick_body_sampled:
  assumes "point_queue s = []" "b = min batch_size (num_samples - samples_done s)" "0 \<le> b"
  shows "\<exists>s'. tick_body num_samples batch_size rnd s
                = Inr ([Drew b (inside_count (nat b) rnd)
                          (inside_total s + inside_count (nat b) rnd) (samples_done s + b),
                        Divided (inside_total s + inside_count (nat b) rnd) (samples_done s + b)],
                       (\<lambda>j. rnd (j + 2 * nat b)), s')
           \<and> inside_total s' = inside_total s + inside_count (nat b) rnd
           \<and> samples_done s' = samples_done s + b
           \<and> running s' = running s
           \<and> point_queue s' = drop 100 (subsample b rnd)
           \<and> disp_x s' = disp_x s @ map fst (take 100 (subsample b rnd))
           \<and> disp_y s' = disp_y s @ map (fst \<circ> snd) (take 100 (subsample b rnd))
           \<and> disp_colors s' = disp_colors s @ map (snd \<circ> snd) (take 100 (subsample b rnd))"
  using assms(1) sample_batch_eq [OF assms(2,3), of rnd]
  by (simp add: tick_body_def drain_min render_def Let_def)

lemma tick_body_crash:
  assumes "point_queue s = []" "min batch_size (num_samples - samples_done s) < 0"
  shows "tick_body num_samples batch_size rnd s = Inl ValueError"
  using assms sample_batch_negative [OF assms(2), of rnd]
  by (simp add: tick_body_def)

lemma tick_body_Inl:
  "tick_body num_samples batch_size rnd s = Inl err \<Longrightarrow>
   err = ValueError \<and> point_queue s = [] \<and> min batch_size (num_samples - samples_done s) < 0"
proof (cases "point_queue s = []")
  case False
  assume "tick_body num_samples batch_size rnd s = Inl err"
  then show ?thesis using tick_body_queued [OF False, of num_samples batch_size rnd] by auto
next
  case True
  note q = True
  assume a: "tick_body num_samples batch_size rnd s = Inl err"
  show ?thesis
  proof (cases "min batch_size (num_samples - samples_done s) < 0")
    case True
    then show ?thesis using a q tick_body_crash [OF q True, of rnd] by simp
  next
    case False
    then have "0 \<le> min batch_size (num_samples - samples_done s)" by linarith
    from tick_body_sampled [OF q refl this, of rnd] obtain s' eff rnd'
      where "tick_body num_samples batch_size rnd s = Inr (eff, rnd', s')" by blast
    then show ?thesis using a by simp
  qed
qed

subsection \<open>The loop: agreement with the counters, and an invariant rule\<close>

lemma draws_append: "draws (xs @ ys) = draws xs @ draws ys"
  by (induction xs rule: draws.induct) simp_all

lemma divisions_append: "divisions (xs @ ys) = divisions xs @ divisions ys"
  by (induction xs rule: divisions.induct) simp_all

lemma counts_of_on_clicked: "counts_of (on_clicked a s) = count_click a (counts_of s)"
  by (cases a) (simp_all add: counts_of_def start_def stop_def resume_def restart_def)

lemma counts_of_fold:
  "counts_of (fold on_clicked as s) = fold count_click as (counts_of s)"
  by (induction as arbitrary: s) (simp_all add: counts_of_on_clicked)

lemma counts_of_pause: "counts_of (pause e s) = fold count_click (clicks e) (counts_of s)"
  by (simp add: pause_def counts_of_fold)

lemma tick_counts:
  assumes "tick_body num_samples batch_size rnd s = Inr (effs, rnd', s')"
  shows "count_tick num_samples batch_size (counts_of s) = Inr (draws effs, counts_of s')"
proof (cases "point_queue s = []")
  case False
  then show ?thesis
    using assms tick_body_queued [OF False, of num_samples batch_size rnd]
    by (auto simp: count_tick_def counts_of_def)
next
  case True
  define b where "b = min batch_size (num_samples - samples_done s)"
  have nn: "0 \<le> b"
  proof (rule ccontr)
    assume "\<not> 0 \<le> b"
    then have "min batch_size (num_samples - samples_done s) < 0" unfolding b_def by linarith
    from tick_body_crash [OF True this, of rnd] show False using assms by simp
  qed
  have nl: "\<not> b < 0" using nn by simp
  from tick_body_sampled [OF True b_def nn, of rnd] assms
  have e: "effs = [Drew b (inside_count (nat b) rnd)
                    (inside_total s + inside_count (nat b) rnd) (samples_done s + b),
                   Divided (inside_total s + inside_count (nat b) rnd) (samples_done s + b)]"
    and sd: "samples_done s' = samples_done s + b"
    and r: "running s' = running s"
    and q: "point_queue s' = drop 100 (subsample b rnd)"
    by auto
  have ql: "length (point_queue s') = subsample_size b - min 100 (subsample_size b)"
    by (simp add: q length_subsample)
  show ?thesis
    using True nl by (simp add: count_tick_def counts_of_def b_def [symmetric] Let_def e sd r ql)
qed

lemma tick_counts_crash:
  assumes "tick_body num_samples batch_size rnd s = Inl err"
  shows "count_tick num_samples batch_size (counts_of s) = Inl err"
  using tick_body_Inl [OF assms] by (simp add: count_tick_def counts_of_def Let_def)

lemma main_loop_counts:
  "count_loop num_samples batch_size (draws tr) (counts_of s) es
     = (outcome (main_loop num_samples batch_size rnd tr s es),
        draws (effects (main_loop num_samples batch_size rnd tr s es)),
        counts_of (final (main_loop num_samples batch_size rnd tr s es)))"
proof (induction es arbitrary: rnd tr s)
  case Nil
  show ?case by (simp add: counts_of_def)
next
  case (Cons e es)
  show ?case
  proof (cases "running s")
    case False
    have c: "counts_of s = (False, samples_done s, length (point_queue s))"
      using False by (simp add: counts_of_def)
    show ?thesis
    proof (cases "window_closed e")
      case True
      then show ?thesis using False counts_of_pause [of e s]
        by (simp add: c Let_def)
    next
      case wopen: False
      have "fold count_click (clicks e) (False, samples_done s, length (point_queue s))
              = counts_of (pause e s)"
        using counts_of_pause [of e s] by (simp add: c)
      then show ?thesis using False wopen Cons.IH [of tr "pause e s" rnd]
        by (simp add: c Let_def)
    qed
  next
    case True
    have c: "counts_of s = (True, samples_done s, length (point_queue s))"
      using True by (simp add: counts_of_def)
    show ?thesis
    proof (cases "num_samples \<le> samples_done s")
      case True
      then show ?thesis using \<open>running s\<close> by (simp add: c counts_of_def)
    next
      case more: False
      show ?thesis
      proof (cases "tick_body num_samples batch_size rnd s")
        case (Inl err)
        have "count_tick num_samples batch_size (True, samples_done s, length (point_queue s))
                = Inl err"
          using tick_counts_crash [OF Inl] by (simp add: c)
        then show ?thesis using \<open>running s\<close> more Inl by (simp add: c)
      next
        case (Inr t)
        obtain effs rnd' s1 where t: "t = (effs, rnd', s1)" by (cases t) auto
        have ct: "count_tick num_samples batch_size (True, samples_done s, length (point_queue s))
                    = Inr (draws effs, counts_of s1)"
          using tick_counts [of num_samples batch_size rnd s effs rnd' s1] Inr t by (simp add: c)
        have f: "fold count_click (clicks e) (counts_of s1) = counts_of (pause e s1)"
          by (simp add: counts_of_pause)
        show ?thesis
        proof (cases "window_closed e")
          case True
          then show ?thesis using \<open>running s\<close> more Inr t ct f
            by (simp add: c draws_append Let_def)
        next
          case False
          then show ?thesis
            using \<open>running s\<close> more Inr t ct f
              Cons.IH [of "tr @ effs" "pause e s1" rnd']
            by (simp add: c draws_append Let_def)
        qed
      qed
    qed
  qed
qed

lemma fold_on_clicked_invariant:
  assumes "\<And>a s. I s \<Longrightarrow> I (on_clicked a s)" "I s"
  shows "I (fold on_clicked as s)"
  using assms(2) by (induction as arbitrary: s) (simp_all add: assms(1))

lemma main_loop_invariant:
  assumes init: "I s" and tr: "\<forall>e\<in>set tr. P e"
    and click: "\<And>a s. I s \<Longrightarrow> I (on_clicked a s)"
    and tick: "\<And>rnd s effs rnd' s'. I s \<Longrightarrow> running s \<Longrightarrow> samples_done s < num_samples \<Longrightarrow>
                tick_body num_samples batch_size rnd s = Inr (effs, rnd', s') \<Longrightarrow>
                I s' \<and> (\<forall>e\<in>set effs. P e)"
    and fin: "\<And>s. I s \<Longrightarrow> I (s\<lparr>running := False\<rparr>)"
  shows "I (final (main_loop num_samples batch_size rnd tr s es))
         \<and> (\<forall>e\<in>set (effects (main_loop num_samples batch_size rnd tr s es)). P e)"
  using init tr
proof (induction es arbitrary: rnd tr s)
  case Nil
  then show ?case by (simp add: fin)
next
  case (Cons e es)
  have p: "\<And>s. I s \<Longrightarrow> I (pause e s)"
    unfolding pause_def using click by (rule fold_on_clicked_invariant)
  show ?case
  proof (cases "running s")
    case False
    then show ?thesis using Cons.prems Cons.IH [of "pause e s" tr rnd] p [of s]
      by (simp add: Let_def)
  next
    case True
    show ?thesis
    proof (cases "num_samples \<le> samples_done s")
      case True
      then show ?thesis using \<open>running s\<close> Cons.prems by (simp add: fin)
    next
      case more: False
      show ?thesis
      proof (cases "tick_body num_samples batch_size rnd s")
        case (Inl err)
        then show ?thesis using \<open>running s\<close> more Cons.prems by simp
      next
        case (Inr t)
        obtain effs rnd' s1 where t: "t = (effs, rnd', s1)" by (cases t) auto
        have lt: "samples_done s < num_samples" using more by simp
        from tick [OF Cons.prems(1) \<open>running s\<close> lt] Inr t
        have s1: "I s1" and effs: "\<forall>e\<in>set effs. P e" by auto
        have tr': "\<forall>e\<in>set (tr @ effs). P e" using Cons.prems(2) effs by auto
        show ?thesis
          using \<open>running s\<close> more Inr t p [OF s1] tr'
            Cons.IH [OF p [OF s1] tr', of rnd']
          by (simp add: Let_def)
      qed
    qed
  qed
qed

subsection \<open>The invariant holds in every run\<close>

lemma stats_inv_initial: "0 \<le> n \<Longrightarrow> stats_inv n initial_state"
  by (simp add: stats_inv_def initial_state_def)

lemma stats_inv_on_clicked: "0 \<le> n \<Longrightarrow> stats_inv n s \<Longrightarrow> stats_inv n (on_clicked a s)"
  by (cases a) (simp_all add: stats_inv_def start_def stop_def resume_def restart_def)

lemma stats_inv_stopped: "stats_inv n s \<Longrightarrow> stats_inv n (s\<lparr>running := False\<rparr>)"
  by (simp add: stats_inv_def)

lemma stats_inv_tick:
  assumes inv: "stats_inv n s" and lt: "samples_done s < n"
    and t: "tick_body n batch_size rnd s = Inr (effs, rnd', s')"
  shows "stats_inv n s' \<and> (\<forall>e\<in>set effs. stats_ok n e)"
proof (cases "point_queue s = []")
  case False
  from tick_body_queued [OF False, of n batch_size rnd] t
  have e: "effs = [Divided (inside_total s) (samples_done s)]"
    and i: "inside_total s' = inside_total s" and d: "samples_done s' = samples_done s"
    and q: "point_queue s' = drop 100 (point_queue s)"
    by auto
  show ?thesis using inv False by (auto simp: stats_inv_def e i d q)
next
  case True
  define b where "b = min batch_size (n - samples_done s)"
  have nn: "0 \<le> b"
  proof (rule ccontr)
    assume "\<not> 0 \<le> b"
    then have "min batch_size (n - samples_done s) < 0" unfolding b_def by linarith
    from tick_body_crash [OF True this, of rnd] show False using t by simp
  qed
  define k where "k = inside_count (nat b) rnd"
  from tick_body_sampled [OF True b_def nn, of rnd] t
  have e: "effs = [Drew b k (inside_total s + k) (samples_done s + b),
                   Divided (inside_total s + k) (samples_done s + b)]"
    and i: "inside_total s' = inside_total s + k" and d: "samples_done s' = samples_done s + b"
    and q: "point_queue s' = drop 100 (subsample b rnd)"
    by (auto simp: k_def)
  have k0: "0 \<le> k" and kb: "k \<le> b"
    using inside_count_bounds [of "nat b" rnd] nn by (simp_all add: k_def)
  have bn: "samples_done s + b \<le> n" unfolding b_def by linarith
  have ql: "length (point_queue s') \<le> 299"
    using subsample_size_le [of b] by (simp add: q length_subsample)
  have qs: "point_queue s' = [] \<or> 1 \<le> samples_done s'"
  proof (cases "point_queue s' = []")
    case False
    then have "0 < subsample_size b" by (auto simp: q length_subsample)
    then have "1 \<le> b" by (rule subsample_size_pos)
    then show ?thesis using inv by (simp add: d stats_inv_def)
  qed simp
  show ?thesis using inv k0 kb bn ql qs by (auto simp: stats_inv_def e i d)
qed

lemma run_stats_inv:
  assumes "0 \<le> n"
  shows "stats_inv n (final (main_loop n batch_size rnd [] initial_state es))
         \<and> (\<forall>e\<in>set (effects (main_loop n batch_size rnd [] initial_state es)). stats_ok n e)"
proof (rule main_loop_invariant)
  show "stats_inv n initial_state" using assms by (rule stats_inv_initial)
  show "\<forall>e\<in>set []. stats_ok n e" by simp
  show "\<And>a s. stats_inv n s \<Longrightarrow> stats_inv n (on_clicked a s)"
    using assms by (rule stats_inv_on_clicked)
  show "\<And>rnd s effs rnd' s'. stats_inv n s \<Longrightarrow> running s \<Longrightarrow> samples_done s < n \<Longrightarrow>
          tick_body n batch_size rnd s = Inr (effs, rnd', s') \<Longrightarrow>
          stats_inv n s' \<and> (\<forall>e\<in>set effs. stats_ok n e)"
    by (rule stats_inv_tick)
  show "\<And>s. stats_inv n s \<Longrightarrow> stats_inv n (s\<lparr>running := False\<rparr>)"
    by (rule stats_inv_stopped)
qed

lemma exhausted_reached:
  "outcome (main_loop n batch_size rnd tr s es) = SamplesExhausted \<Longrightarrow>
   n \<le> samples_done (final (main_loop n batch_size rnd tr s es))"
  by (induction es arbitrary: rnd tr s)
    (auto simp: Let_def split: if_splits sum.splits prod.splits)

lemma exits_when_exhausted:
  "running s \<Longrightarrow> n \<le> samples_done s \<Longrightarrow>
   main_loop n batch_size rnd tr s es
     = \<lparr>outcome = SamplesExhausted, effects = tr, final = s\<lparr>running := False\<rparr>,
        window = Open\<rparr>"
  by (cases es) simp_all

subsection \<open>Effects of a run\<close>

lemma tick_effects:
  assumes "tick_body n batch_size rnd s = Inr (effs, rnd', s')"
  shows "(point_queue s \<noteq> [] \<and> effs = [Divided (inside_total s) (samples_done s)])
         \<or> (point_queue s = [] \<and> 0 \<le> min batch_size (n - samples_done s)
            \<and> (\<exists>k. effs = [Drew (min batch_size (n - samples_done s)) k (inside_total s + k)
                               (samples_done s + min batch_size (n - samples_done s)),
                             Divided (inside_total s + k)
                               (samples_done s + min batch_size (n - samples_done s))]))"
proof (cases "point_queue s = []")
  case False
  then show ?thesis using assms tick_body_queued [OF False, of n batch_size rnd] by auto
next
  case True
  define b where "b = min batch_size (n - samples_done s)"
  have nn: "0 \<le> b"
  proof (rule ccontr)
    assume "\<not> 0 \<le> b"
    then have "min batch_size (n - samples_done s) < 0" unfolding b_def by linarith
    from tick_body_crash [OF True this, of rnd] show False using assms by simp
  qed
  from tick_body_sampled [OF True b_def nn, of rnd] assms
  have "effs = [Drew b (inside_count (nat b) rnd)
                  (inside_total s + inside_count (nat b) rnd) (samples_done s + b),
                Divided (inside_total s + inside_count (nat b) rnd) (samples_done s + b)]"
    by auto
  then show ?thesis using True nn unfolding b_def by blast
qed

lemma animation_loop:
  "outcome (monte_carlo_pi_animation n batch rnd es)
     = outcome (main_loop n (effective_batch_size n batch) rnd [] initial_state es)"
  "effects (monte_carlo_pi_animation n batch rnd es)
     = effects (main_loop n (effective_batch_size n batch) rnd [] initial_state es)"
  "final (monte_carlo_pi_animation n batch rnd es)
     = final (main_loop n (effective_batch_size n batch) rnd [] initial_state es)"
  by (simp_all add: monte_carlo_pi_animation_def plt_close_def Let_def)

lemma run_counts:
  "count_loop n (effective_batch_size n batch) [] (False, 0, 0) es
     = (outcome (monte_carlo_pi_animation n batch rnd es),
        draws (effects (monte_carlo_pi_animation n batch rnd es)),
        running (final (monte_carlo_pi_animation n batch rnd es)),
        samples_done (final (monte_carlo_pi_animation n batch rnd es)),
        length (point_queue (final (monte_carlo_pi_animation n batch rnd es))))"
proof -
  have "counts_of initial_state = (False, 0, 0)"
    by (simp add: counts_of_def initial_state_def)
  then show ?thesis
    using main_loop_counts [of n "effective_batch_size n batch" "[]" initial_state es rnd]
    by (simp add: animation_loop counts_of_def)
qed

lemma exhausted_not_running:
  "outcome (main_loop n batch_size rnd tr s es) = SamplesExhausted \<Longrightarrow>
   \<not> running (final (main_loop n batch_size rnd tr s es))"
  by (induction es arbitrary: rnd tr s)
    (auto simp: Let_def split: if_splits sum.splits prod.splits)

lemma run_clamped:
  assumes "Drew b k i d \<in> set (effects (main_loop n batch_size rnd [] s es))"
  shows "b = min batch_size (n - (d - b))"
proof -
  let ?P = "\<lambda>e. case e of Drew b k i d \<Rightarrow> b = min batch_size (n - (d - b)) | Divided i d \<Rightarrow> True"
  have "(\<lambda>s. True) (final (main_loop n batch_size rnd [] s es))
        \<and> (\<forall>e\<in>set (effects (main_loop n batch_size rnd [] s es)). ?P e)"
  proof (rule main_loop_invariant)
    fix rnd s effs rnd' s'
    assume "tick_body n batch_size rnd s = Inr (effs, rnd', s')"
    from tick_effects [OF this] show "True \<and> (\<forall>e\<in>set effs. ?P e)" by auto
  qed simp_all
  then show ?thesis using assms by fastforce
qed

lemma run_sampled_some:
  assumes "1 \<le> n" "1 \<le> batch_size"
  shows "\<forall>e\<in>set (effects (main_loop n batch_size rnd [] initial_state es)).
           (case e of Drew b k i d \<Rightarrow> 1 \<le> b \<and> 1 \<le> d | Divided i d \<Rightarrow> 1 \<le> d)"
proof -
  let ?P = "\<lambda>e. case e of Drew b k i d \<Rightarrow> 1 \<le> b \<and> 1 \<le> d | Divided i d \<Rightarrow> 1 \<le> (d::int)"
  have n0: "0 \<le> n" using assms(1) by simp
  have "stats_inv n (final (main_loop n batch_size rnd [] initial_state es))
        \<and> (\<forall>e\<in>set (effects (main_loop n batch_size rnd [] initial_state es)). ?P e)"
  proof (rule main_loop_invariant)
    show "stats_inv n initial_state" using n0 by (rule stats_inv_initial)
    show "\<forall>e\<in>set []. ?P e" by simp
    show "\<And>a s. stats_inv n s \<Longrightarrow> stats_inv n (on_clicked a s)"
      using n0 by (rule stats_inv_on_clicked)
    show "\<And>s. stats_inv n s \<Longrightarrow> stats_inv n (s\<lparr>running := False\<rparr>)"
      by (rule stats_inv_stopped)
  next
    fix rnd s effs rnd' s'
    assume inv: "stats_inv n s" and lt: "samples_done s < n"
      and t: "tick_body n batch_size rnd s = Inr (effs, rnd', s')"
    have i': "stats_inv n s'" using stats_inv_tick [OF inv lt t] by simp
    have b1: "1 \<le> min batch_size (n - samples_done s)" using lt assms(2) by simp
    have d0: "0 \<le> samples_done s" using inv by (simp add: stats_inv_def)
    have "\<forall>e\<in>set effs. ?P e"
      using tick_effects [OF t] inv b1 d0 by (auto simp: stats_inv_def)
    then show "stats_inv n s' \<and> (\<forall>e\<in>set effs. ?P e)" using i' by simp
  qed
  then show ?thesis by simp
qed

lemma default_batch_size_positive: "1 \<le> default_batch_size n"
  by (simp add: default_batch_size_def)

lemma upt_small:
  "[0..<2] = [0, Suc 0]" "[Suc 0..<2] = [Suc 0]" "[2..<4] = [2, 3]" "[0..<1] = [0]"
  "[1..<2] = [1]"
  by (simp_all add: upt_conv_Cons)

subsection \<open>Reading an integer\<close>























subsection \<open>The end of the loop, and restart\<close>

lemma exhausted_window:
  "outcome (main_loop n batch_size rnd tr s es) = SamplesExhausted \<Longrightarrow>
   window (main_loop n batch_size rnd tr s es) = Open"
  by (induction es arbitrary: rnd tr s)
    (auto simp: Let_def split: if_splits sum.splits prod.splits)

lemma animation_window:
  "outcome (monte_carlo_pi_animation n batch rnd es) = SamplesExhausted \<Longrightarrow>
   window (monte_carlo_pi_animation n batch rnd es) = ClosedByProgram"
proof -
  assume "outcome (monte_carlo_pi_animation n batch rnd es) = SamplesExhausted"
  then have o: "outcome (main_loop n (effective_batch_size n batch) rnd [] initial_state es)
                  = SamplesExhausted"
    by (simp add: animation_loop)
  from exhausted_window [OF o] o show ?thesis
    by (simp add: monte_carlo_pi_animation_def plt_close_def Let_def)
qed

lemma exhausted_prefix:
  "outcome (main_loop n batch_size rnd tr s es) = SamplesExhausted \<Longrightarrow>
   \<exists>k\<le>length es. (\<forall>e\<in>set (take k es). \<not> window_closed e)
      \<and> (\<forall>rest. main_loop n batch_size rnd tr s (take k es @ rest)
                   = main_loop n batch_size rnd tr s es)"
proof (induction es arbitrary: rnd tr s)
  case Nil
  then have h: "running s" "n \<le> samples_done s" by (auto split: if_splits)
  have "\<forall>rest. main_loop n batch_size rnd tr s rest = main_loop n batch_size rnd tr s []"
    using h by (simp add: exits_when_exhausted)
  then show ?case by simp
next
  case (Cons e es)
  show ?case
  proof (cases "running s")
    case False
    note nr = False
    show ?thesis
    proof (cases "window_closed e")
      case True
      then show ?thesis using Cons.prems nr by (simp add: Let_def)
    next
      case False
      then have eq: "\<And>xs. main_loop n batch_size rnd tr s (e # xs)
                      = main_loop n batch_size rnd tr (pause e s) xs"
        using nr by (simp add: Let_def)
      then have "outcome (main_loop n batch_size rnd tr (pause e s) es) = SamplesExhausted"
        using Cons.prems by simp
      from Cons.IH [OF this] obtain k where k: "k \<le> length es"
        "\<forall>e\<in>set (take k es). \<not> window_closed e"
        "\<forall>rest. main_loop n batch_size rnd tr (pause e s) (take k es @ rest)
                   = main_loop n batch_size rnd tr (pause e s) es"
        by blast
      have "Suc k \<le> length (e # es)" using k(1) by simp
      moreover have "\<forall>x\<in>set (take (Suc k) (e # es)). \<not> window_closed x"
        using k(2) False by simp
      moreover have "\<forall>rest. main_loop n batch_size rnd tr s (take (Suc k) (e # es) @ rest)
                   = main_loop n batch_size rnd tr s (e # es)"
        using k(3) eq by simp
      ultimately show ?thesis by blast
    qed
  next
    case True
    note r = True
    show ?thesis
    proof (cases "n \<le> samples_done s")
      case True
      have "\<forall>rest. main_loop n batch_size rnd tr s rest
                     = main_loop n batch_size rnd tr s (e # es)"
        using r True by (simp add: exits_when_exhausted)
      then have "\<forall>rest. main_loop n batch_size rnd tr s (take 0 (e # es) @ rest)
                     = main_loop n batch_size rnd tr s (e # es)"
        by simp
      moreover have "\<forall>x\<in>set (take 0 (e # es)). \<not> window_closed x" by simp
      ultimately show ?thesis by blast
    next
      case False
      note lt = False
      show ?thesis
      proof (cases "tick_body n batch_size rnd s")
        case (Inl err)
        then show ?thesis using Cons.prems r lt by simp
      next
        case (Inr p)
        then obtain effs rnd' s1 where t: "tick_body n batch_size rnd s = Inr (effs, rnd', s1)"
          by (cases p) auto
        show ?thesis
        proof (cases "window_closed e")
          case True
          then show ?thesis using Cons.prems r lt t by (simp add: Let_def)
        next
          case False
          then have eq: "\<And>xs. main_loop n batch_size rnd tr s (e # xs)
                      = main_loop n batch_size rnd' (tr @ effs) (pause e s1) xs"
            using r lt t by (simp add: Let_def)
          then have "outcome (main_loop n batch_size rnd' (tr @ effs) (pause e s1) es)
                       = SamplesExhausted"
            using Cons.prems by simp
          from Cons.IH [OF this] obtain k where k: "k \<le> length es"
            "\<forall>e\<in>set (take k es). \<not> window_closed e"
            "\<forall>rest. main_loop n batch_size rnd' (tr @ effs) (pause e s1) (take k es @ rest)
                   = main_loop n batch_size rnd' (tr @ effs) (pause e s1) es"
            by blast
          have "Suc k \<le> length (e # es)" using k(1) by simp
          moreover have "\<forall>x\<in>set (take (Suc k) (e # es)). \<not> window_closed x"
            using k(2) False by simp
          moreover have "\<forall>rest. main_loop n batch_size rnd tr s (take (Suc k) (e # es) @ rest)
                   = main_loop n batch_size rnd tr s (e # es)"
            using k(3) eq by simp
          ultimately show ?thesis by blast
        qed
      qed
    qed
  qed
qed

lemma tick_body_total:
  assumes "samples_done s < n" "0 \<le> batch_size"
  shows "\<exists>effs rnd' s1. tick_body n batch_size rnd s = Inr (effs, rnd', s1)"
proof (cases "tick_body n batch_size rnd s")
  case (Inl err)
  from tick_body_Inl [OF this] have "min batch_size (n - samples_done s) < 0" by simp
  then have False using assms by linarith
  then show ?thesis by simp
next
  case (Inr p)
  then show ?thesis by (cases p) auto
qed

lemma restart_continues:
  assumes "\<not> running s \<or> (samples_done s < n \<and> 0 \<le> batch_size)"
    and "clicks e = cs @ [Restart]" and "\<not> window_closed e"
  shows "\<exists>rnd' tr' s'. \<forall>es. main_loop n batch_size rnd tr s (e # es)
                              = main_loop n batch_size rnd' tr' (restart s') es"
proof (cases "running s")
  case False
  then have "\<forall>es. main_loop n batch_size rnd tr s (e # es)
                  = main_loop n batch_size rnd tr (restart (fold on_clicked cs s)) es"
    using assms(2,3) by (simp add: pause_def)
  then show ?thesis by blast
next
  case True
  then have h: "samples_done s < n" "0 \<le> batch_size" using assms(1) by auto
  from tick_body_total [OF h] obtain effs rnd' s1
    where t: "tick_body n batch_size rnd s = Inr (effs, rnd', s1)" by blast
  have "\<forall>es. main_loop n batch_size rnd tr s (e # es)
                  = main_loop n batch_size rnd' (tr @ effs) (restart (fold on_clicked cs s1)) es"
    using True h(1) t assms(2,3) by (simp add: pause_def)
  then show ?thesis by blast
qed

section \<open>The claims\<close>

subsection \<open>The batch size table\<close>

text \<open>
  Claim C7. Without a batch size on the command line, the batch size depends on the number
  of samples \<open>N\<close> only: 10,000 up to one million samples, 100,000 up to ten million,
  1,000,000 up to a hundred million and 5,000,000 above; a batch size that is given is
  used as it is.
\<close>

theorem default_batch_size_table:
  "(N \<le> 1000000 \<longrightarrow> effective_batch_size N None = 10000)
   \<and> (1000000 < N \<and> N \<le> 10000000 \<longrightarrow> effective_batch_size N None = 100000)
   \<and> (10000000 < N \<and> N \<le> 100000000 \<longrightarrow> effective_batch_size N None = 1000000)
   \<and> (100000000 < N \<longrightarrow> effective_batch_size N None = 5000000)
   \<and> effective_batch_size N (Some b) = b"
  by (simp add: effective_batch_size_def default_batch_size_def)

theorem default_batch_size_table_witness:
  "effective_batch_size 1000000 None = 10000
   \<and> effective_batch_size 1000001 None = 100000
   \<and> effective_batch_size 10000000 None = 100000
   \<and> effective_batch_size 100000000 None = 1000000
   \<and> effective_batch_size 100000001 None = 5000000
   \<and> effective_batch_size 7 (Some 3) = 3"
  using default_batch_size_table [of 1000000 3] default_batch_size_table [of 1000001 3]
    default_batch_size_table [of 10000000 3] default_batch_size_table [of 100000000 3]
    default_batch_size_table [of 100000001 3] default_batch_size_table [of 7 3]
  by simp

subsection \<open>Subsampling\<close>

text \<open>
  Claim C4. A batch of \<open>b\<close> points is subsampled at stride \<open>max 1 (b div 200)\<close> from index
  0: the points appended to the display queue are those of the batch at the indices
  \<open>0, step, 2 * step, \<dots>\<close>, there are exactly \<open>ceiling (b / step)\<close> of them, and they keep
  the order they have in the batch. The running statistics are updated from the full batch:
  \<open>samples_done\<close> grows by \<open>b\<close> and \<open>inside_total\<close> by the number of points of the whole
  batch that lie inside the circle.
\<close>

theorem subsample_stride:
  assumes "b = min batch_size (num_samples - samples_done s)" and "0 \<le> b"
  shows "sample_batch num_samples batch_size rnd s
           = Inr ([Drew b (inside_count (nat b) rnd)
                     (inside_total s + inside_count (nat b) rnd) (samples_done s + b)],
                  (\<lambda>j. rnd (j + 2 * nat b)),
                  s\<lparr>inside_total := inside_total s + inside_count (nat b) rnd,
                    samples_done := samples_done s + b,
                    point_queue := point_queue s @ subsample b rnd\<rparr>)
         \<and> int (length (subsample b rnd))
             = \<lceil>real_of_int b / real_of_int (max 1 (b div 200))\<rceil>
         \<and> (\<forall>j<length (subsample b rnd).
               subsample b rnd ! j = batch_points (nat b) rnd ! (j * nat (max 1 (b div 200))))
         \<and> subseq (subsample b rnd) (batch_points (nat b) rnd)
         \<and> length (batch_points (nat b) rnd) = nat b
         \<and> inside_count (nat b) rnd
             = int (length (filter (\<lambda>p. snd (snd p) = Blue) (batch_points (nat b) rnd)))"
proof -
  have "\<forall>j<length (subsample b rnd).
          subsample b rnd ! j = batch_points (nat b) rnd ! (j * nat (max 1 (b div 200)))"
    by (simp add: subsample_def)
  moreover have "int (length (subsample b rnd))
                   = \<lceil>real_of_int b / real_of_int (max 1 (b div 200))\<rceil>"
    using subsample_size_ceiling [OF assms(2)] by (simp only: length_subsample)
  ultimately show ?thesis
    using sample_batch_eq [OF assms] subseq_subsample [OF assms(2)]
    by (simp only: length_batch_points inside_count_def simp_thms)
qed

theorem subsample_stride_witness:
  "sample_batch 450 1000 zero_rng initial_state
     = Inr ([Drew 450 (inside_count 450 zero_rng) (inside_count 450 zero_rng) 450],
            (\<lambda>j. zero_rng (j + 900)),
            initial_state\<lparr>inside_total := inside_count 450 zero_rng,
              samples_done := 450,
              point_queue := subsample 450 zero_rng\<rparr>)
   \<and> length (subsample 450 zero_rng) = 225
   \<and> subsample 450 zero_rng ! 3 = batch_points 450 zero_rng ! 6
   \<and> subseq (subsample 450 zero_rng) (batch_points 450 zero_rng)
   \<and> length (batch_points 450 zero_rng) = 450"
proof -
  have h1: "(450::int) = min 1000 (450 - samples_done initial_state)"
    by (simp add: initial_state_def)
  have h2: "(0::int) \<le> 450" by simp
  note t = subsample_stride [OF h1 h2, of zero_rng]
  have st: "max 1 ((450::int) div 200) = 2" by simp
  have len: "length (subsample 450 zero_rng) = 225"
    using t by (simp add: st)
  have "subsample 450 zero_rng ! 3 = batch_points 450 zero_rng ! (3 * nat (max 1 (450 div 200)))"
    using t len by simp
  then have third: "subsample 450 zero_rng ! 3 = batch_points 450 zero_rng ! 6"
    by (simp add: st)
  show ?thesis using t len third by (simp add: initial_state_def)
qed

subsection \<open>Batching and the running statistics\<close>

text \<open>
  Claim C1. For every target \<open>N > 0\<close>, a run that ends because the samples are exhausted
  ends with \<open>samples_done = N\<close> exactly. Every batch drawn has the size
  \<open>min batch_size (N - samples_done)\<close> for the value of \<open>samples_done\<close> before it, and
  leaves \<open>samples_done \<le> N\<close>. For 250,000 samples in batches of 100,000 the batches have
  sizes 100000, 100000, 50000 and the run ends with \<open>samples_done = 250000\<close>.
\<close>

theorem batching_never_overshoots:
  assumes "0 < N" and "r = monte_carlo_pi_animation N batch rnd es"
  shows "(outcome r = SamplesExhausted \<longrightarrow> samples_done (final r) = N)
         \<and> (\<forall>b k i d. Drew b k i d \<in> set (effects r) \<longrightarrow>
               b = min (effective_batch_size N batch) (N - (d - b)) \<and> d \<le> N)
         \<and> outcome (monte_carlo_pi_animation 250000 (Some 100000) rnd2
               [click Start, idle, idle, idle, idle, idle]) = SamplesExhausted
         \<and> draws (effects (monte_carlo_pi_animation 250000 (Some 100000) rnd2
               [click Start, idle, idle, idle, idle, idle]))
             = [(100000, 100000), (100000, 200000), (50000, 250000)]
         \<and> samples_done (final (monte_carlo_pi_animation 250000 (Some 100000) rnd2
               [click Start, idle, idle, idle, idle, idle])) = 250000"
proof -
  have n0: "0 \<le> N" using assms(1) by simp
  note inv = run_stats_inv [OF n0, of "effective_batch_size N batch" rnd es]
  have le: "samples_done (final r) \<le> N"
    using inv by (simp add: assms(2) animation_loop stats_inv_def)
  have a: "outcome r = SamplesExhausted \<longrightarrow> samples_done (final r) = N"
  proof
    assume "outcome r = SamplesExhausted"
    then have "N \<le> samples_done (final r)"
      unfolding assms(2) animation_loop by (rule exhausted_reached)
    then show "samples_done (final r) = N" using le by simp
  qed
  have b: "\<forall>b k i d. Drew b k i d \<in> set (effects r) \<longrightarrow>
             b = min (effective_batch_size N batch) (N - (d - b)) \<and> d \<le> N"
  proof (intro allI impI)
    fix b k i d
    assume m: "Drew b k i d \<in> set (effects r)"
    have "\<forall>e\<in>set (effects r). stats_ok N e"
      using inv by (simp add: assms(2) animation_loop)
    then have "stats_ok N (Drew b k i d)" using m by (rule bspec)
    moreover have "b = min (effective_batch_size N batch) (N - (d - b))"
      using m unfolding assms(2) animation_loop by (rule run_clamped)
    ultimately show "b = min (effective_batch_size N batch) (N - (d - b)) \<and> d \<le> N" by simp
  qed
  have "count_loop 250000 100000 [] (False, 0, 0)
          [click Start, idle, idle, idle, idle, idle]
        = (SamplesExhausted, [(100000, 100000), (100000, 200000), (50000, 250000)],
           False, 250000, 100)"
    by (simp add: click_def idle_def count_tick_def subsample_size_def Let_def)
  then have c: "outcome (monte_carlo_pi_animation 250000 (Some 100000) rnd2
               [click Start, idle, idle, idle, idle, idle]) = SamplesExhausted
         \<and> draws (effects (monte_carlo_pi_animation 250000 (Some 100000) rnd2
               [click Start, idle, idle, idle, idle, idle]))
             = [(100000, 100000), (100000, 200000), (50000, 250000)]
         \<and> samples_done (final (monte_carlo_pi_animation 250000 (Some 100000) rnd2
               [click Start, idle, idle, idle, idle, idle])) = 250000"
    using run_counts [of 250000 "Some 100000" "[click Start, idle, idle, idle, idle, idle]" rnd2]
    by (simp add: effective_batch_size_def)
  show ?thesis using a b c by blast
qed

theorem batching_never_overshoots_witness:
  "(0::int) < 3
   \<and> outcome (monte_carlo_pi_animation 3 (Some 2) zero_rng [click Start, idle, idle])
       = SamplesExhausted
   \<and> samples_done (final (monte_carlo_pi_animation 3 (Some 2) zero_rng
       [click Start, idle, idle])) = 3
   \<and> Drew 1 1 3 3 \<in> set (effects (monte_carlo_pi_animation 3 (Some 2) zero_rng
       [click Start, idle, idle]))
   \<and> (1::int) = min (effective_batch_size 3 (Some 2)) (3 - (3 - 1))"
proof -
  have p: "(0::int) < 3" by simp
  have e: "effects (monte_carlo_pi_animation 3 (Some 2) zero_rng [click Start, idle, idle])
             = [Drew 2 2 2 2, Divided 2 2, Drew 1 1 3 3, Divided 3 3]"
    by (simp add: animation_loop effective_batch_size_def initial_state_def
        click_def idle_def pause_def start_def tick_body_def sample_batch_def render_def
        Let_def zero_rng_def in_circle_def tagged_def upt_small)
  have "count_loop 3 2 [] (False, 0, 0) [click Start, idle, idle]
          = (SamplesExhausted, [(2, 2), (1, 3)], False, 3, 0)"
    by (simp add: click_def idle_def count_tick_def subsample_size_def Let_def)
  then have o: "outcome (monte_carlo_pi_animation 3 (Some 2) zero_rng [click Start, idle, idle])
             = SamplesExhausted"
    using run_counts [of 3 "Some 2" "[click Start, idle, idle]" zero_rng]
    by (simp add: effective_batch_size_def)
  have m: "Drew 1 1 3 3 \<in> set (effects (monte_carlo_pi_animation 3 (Some 2) zero_rng
       [click Start, idle, idle]))"
    by (simp add: e)
  note t = batching_never_overshoots [OF p refl, of "Some 2" zero_rng
      "[click Start, idle, idle]" zero_rng]
  have sd: "samples_done (final (monte_carlo_pi_animation 3 (Some 2) zero_rng
       [click Start, idle, idle])) = 3"
    using t o by blast
  have cl: "(1::int) = min (effective_batch_size 3 (Some 2)) (3 - (3 - 1))"
    using t m by blast
  show ?thesis using p o sd m cl by blast
qed

text \<open>
  Claim C2. In every run with a target \<open>N > 0\<close>, each batch has between 0 and its size
  many points inside the circle, and after it is applied
  \<open>0 \<le> inside_total \<le> samples_done \<le> N\<close>; the same holds of the variables at the end of
  every iteration. Applying a batch never decreases either total, and \<open>inside_total\<close>
  grows by no more than \<open>samples_done\<close> does.
\<close>

theorem running_statistics_invariant:
  assumes "0 < N" and "r = monte_carlo_pi_animation N batch rnd es"
  shows "(\<forall>b k i d. Drew b k i d \<in> set (effects r) \<longrightarrow>
            0 \<le> k \<and> k \<le> b \<and> 0 \<le> i \<and> i \<le> d \<and> d \<le> N)
         \<and> 0 \<le> inside_total (final r) \<and> inside_total (final r) \<le> samples_done (final r)
         \<and> samples_done (final r) \<le> N
         \<and> (sample_batch N2 batch_size rnd2 s = Inr (effs, rnd', s') \<longrightarrow>
              inside_total s \<le> inside_total s' \<and> samples_done s \<le> samples_done s'
              \<and> inside_total s' - inside_total s \<le> samples_done s' - samples_done s)"
proof -
  have n0: "0 \<le> N" using assms(1) by simp
  note inv = run_stats_inv [OF n0, of "effective_batch_size N batch" rnd es]
  have a: "\<forall>b k i d. Drew b k i d \<in> set (effects r) \<longrightarrow>
            0 \<le> k \<and> k \<le> b \<and> 0 \<le> i \<and> i \<le> d \<and> d \<le> N"
  proof (intro allI impI)
    fix b k i d
    assume m: "Drew b k i d \<in> set (effects r)"
    have "\<forall>e\<in>set (effects r). stats_ok N e"
      using inv by (simp add: assms(2) animation_loop)
    then have "stats_ok N (Drew b k i d)" using m by (rule bspec)
    then show "0 \<le> k \<and> k \<le> b \<and> 0 \<le> i \<and> i \<le> d \<and> d \<le> N" by simp
  qed
  have b: "0 \<le> inside_total (final r) \<and> inside_total (final r) \<le> samples_done (final r)
         \<and> samples_done (final r) \<le> N"
    using inv by (simp add: assms(2) animation_loop stats_inv_def)
  have c: "sample_batch N2 batch_size rnd2 s = Inr (effs, rnd', s') \<longrightarrow>
              inside_total s \<le> inside_total s' \<and> samples_done s \<le> samples_done s'
              \<and> inside_total s' - inside_total s \<le> samples_done s' - samples_done s"
  proof
    assume t: "sample_batch N2 batch_size rnd2 s = Inr (effs, rnd', s')"
    define b where "b = min batch_size (N2 - samples_done s)"
    have nn: "0 \<le> b"
    proof (rule ccontr)
      assume "\<not> 0 \<le> b"
      then have "min batch_size (N2 - samples_done s) < 0" unfolding b_def by linarith
      from sample_batch_negative [OF this, of rnd2] show False using t by simp
    qed
    from sample_batch_eq [OF b_def nn, of rnd2] t
    have i: "inside_total s' = inside_total s + inside_count (nat b) rnd2"
      and d: "samples_done s' = samples_done s + b"
      by auto
    show "inside_total s \<le> inside_total s' \<and> samples_done s \<le> samples_done s'
              \<and> inside_total s' - inside_total s \<le> samples_done s' - samples_done s"
      using inside_count_bounds [of "nat b" rnd2] nn by (simp add: i d)
  qed
  show ?thesis using a b c by blast
qed

theorem running_statistics_invariant_witness:
  "(0::int) < 3
   \<and> Drew 2 2 2 2 \<in> set (effects (monte_carlo_pi_animation 3 (Some 2) zero_rng
       [click Start, idle, idle]))
   \<and> inside_total (final (monte_carlo_pi_animation 3 (Some 2) zero_rng
       [click Start, idle, idle])) \<le> samples_done (final (monte_carlo_pi_animation 3 (Some 2)
       zero_rng [click Start, idle, idle]))
   \<and> samples_done (final (monte_carlo_pi_animation 3 (Some 2) zero_rng
       [click Start, idle, idle])) \<le> 3
   \<and> (\<exists>effs rnd' s'. sample_batch 3 2 zero_rng initial_state = Inr (effs, rnd', s')
        \<and> inside_total initial_state \<le> inside_total s'
        \<and> samples_done initial_state \<le> samples_done s')"
proof -
  have p: "(0::int) < 3" by simp
  have e: "effects (monte_carlo_pi_animation 3 (Some 2) zero_rng [click Start, idle, idle])
             = [Drew 2 2 2 2, Divided 2 2, Drew 1 1 3 3, Divided 3 3]"
    by (simp add: animation_loop effective_batch_size_def initial_state_def
        click_def idle_def pause_def start_def tick_body_def sample_batch_def render_def
        Let_def zero_rng_def in_circle_def tagged_def upt_small)
  have m: "Drew 2 2 2 2 \<in> set (effects (monte_carlo_pi_animation 3 (Some 2) zero_rng
       [click Start, idle, idle]))"
    by (simp add: e)
  have h1: "(2::int) = min 2 (3 - samples_done initial_state)"
    by (simp add: initial_state_def)
  have h2: "(0::int) \<le> 2" by simp
  obtain effs rnd' s' where
    sb: "sample_batch 3 2 zero_rng initial_state = Inr (effs, rnd', s')"
    using sample_batch_eq [OF h1 h2, of zero_rng] by blast
  note t = running_statistics_invariant [OF p refl, of "Some 2" zero_rng
      "[click Start, idle, idle]" 3 2 zero_rng initial_state effs rnd' s']
  have a: "inside_total (final (monte_carlo_pi_animation 3 (Some 2) zero_rng
       [click Start, idle, idle])) \<le> samples_done (final (monte_carlo_pi_animation 3 (Some 2)
       zero_rng [click Start, idle, idle]))
     \<and> samples_done (final (monte_carlo_pi_animation 3 (Some 2) zero_rng
       [click Start, idle, idle])) \<le> 3"
    using t by blast
  have b: "inside_total initial_state \<le> inside_total s'
        \<and> samples_done initial_state \<le> samples_done s'"
    using t sb by blast
  show ?thesis using p m a b sb by blast
qed

subsection \<open>The number of batches and the division\<close>

text \<open>
  Claim C6. For 100,000 samples and the default batch size (10,000) the sampler is called
  exactly ten times before the run ends with the samples exhausted, and \<open>samples_done\<close>
  takes the values 10000, 20000, \<dots>, 100000. In any iteration a batch is drawn exactly
  when the display queue is empty at its start, and at most one batch is drawn.
\<close>

theorem ten_batches_of_ten_thousand:
  "outcome (monte_carlo_pi_animation 100000 None rnd
      [click Start, idle, idle, idle, idle, idle, idle, idle, idle, idle, idle,
       idle, idle, idle, idle, idle, idle, idle, idle, idle]) = SamplesExhausted
   \<and> draws (effects (monte_carlo_pi_animation 100000 None rnd
      [click Start, idle, idle, idle, idle, idle, idle, idle, idle, idle, idle,
       idle, idle, idle, idle, idle, idle, idle, idle, idle]))
     = [(10000, 10000), (10000, 20000), (10000, 30000), (10000, 40000),
        (10000, 50000), (10000, 60000), (10000, 70000), (10000, 80000),
        (10000, 90000), (10000, 100000)]
   \<and> length (draws (effects (monte_carlo_pi_animation 100000 None rnd
      [click Start, idle, idle, idle, idle, idle, idle, idle, idle, idle, idle,
       idle, idle, idle, idle, idle, idle, idle, idle, idle]))) = 10
   \<and> samples_done (final (monte_carlo_pi_animation 100000 None rnd
      [click Start, idle, idle, idle, idle, idle, idle, idle, idle, idle, idle,
       idle, idle, idle, idle, idle, idle, idle, idle, idle])) = 100000
   \<and> (tick_body N batch_size rnd2 s = Inr (effs, rnd', s') \<longrightarrow>
        (draws effs \<noteq> [] \<longleftrightarrow> point_queue s = []) \<and> length (draws effs) \<le> 1)"
proof -
  have c: "count_loop 100000 10000 [] (False, 0, 0)
         [click Start, idle, idle, idle, idle, idle, idle, idle, idle, idle, idle,
          idle, idle, idle, idle, idle, idle, idle, idle, idle]
       = (SamplesExhausted,
          [(10000, 10000), (10000, 20000), (10000, 30000), (10000, 40000),
           (10000, 50000), (10000, 60000), (10000, 70000), (10000, 80000),
           (10000, 90000), (10000, 100000)],
          False, 100000, 100)"
    by (simp add: click_def idle_def count_tick_def subsample_size_def Let_def)
  have b: "effective_batch_size 100000 None = 10000"
    by (simp add: effective_batch_size_def default_batch_size_def)
  note rc = run_counts [of 100000 None
      "[click Start, idle, idle, idle, idle, idle, idle, idle, idle, idle, idle,
        idle, idle, idle, idle, idle, idle, idle, idle, idle]" rnd]
  have o: "outcome (monte_carlo_pi_animation 100000 None rnd
      [click Start, idle, idle, idle, idle, idle, idle, idle, idle, idle, idle,
       idle, idle, idle, idle, idle, idle, idle, idle, idle]) = SamplesExhausted"
    using rc c by (simp only: b prod.inject)
  have d: "draws (effects (monte_carlo_pi_animation 100000 None rnd
      [click Start, idle, idle, idle, idle, idle, idle, idle, idle, idle, idle,
       idle, idle, idle, idle, idle, idle, idle, idle, idle]))
     = [(10000, 10000), (10000, 20000), (10000, 30000), (10000, 40000),
        (10000, 50000), (10000, 60000), (10000, 70000), (10000, 80000),
        (10000, 90000), (10000, 100000)]"
    using rc c by (simp only: b prod.inject)
  have l: "length (draws (effects (monte_carlo_pi_animation 100000 None rnd
      [click Start, idle, idle, idle, idle, idle, idle, idle, idle, idle, idle,
       idle, idle, idle, idle, idle, idle, idle, idle, idle]))) = 10"
    by (simp only: d) simp
  have sd: "samples_done (final (monte_carlo_pi_animation 100000 None rnd
      [click Start, idle, idle, idle, idle, idle, idle, idle, idle, idle, idle,
       idle, idle, idle, idle, idle, idle, idle, idle, idle])) = 100000"
    using rc c by (simp only: b prod.inject)
  have t: "tick_body N batch_size rnd2 s = Inr (effs, rnd', s') \<longrightarrow>
        (draws effs \<noteq> [] \<longleftrightarrow> point_queue s = []) \<and> length (draws effs) \<le> 1"
  proof
    assume "tick_body N batch_size rnd2 s = Inr (effs, rnd', s')"
    from tick_effects [OF this]
    show "(draws effs \<noteq> [] \<longleftrightarrow> point_queue s = []) \<and> length (draws effs) \<le> 1"
      by auto
  qed
  show ?thesis using o d l sd t by blast
qed

theorem ten_batches_of_ten_thousand_witness:
  "\<exists>effs rnd' s'. tick_body 3 2 zero_rng initial_state = Inr (effs, rnd', s')
     \<and> draws effs \<noteq> [] \<and> point_queue initial_state = [] \<and> length (draws effs) \<le> 1"
proof -
  have q: "point_queue initial_state = []" by (simp add: initial_state_def)
  have h1: "(2::int) = min 2 (3 - samples_done initial_state)"
    by (simp add: initial_state_def)
  have h2: "(0::int) \<le> 2" by simp
  obtain effs rnd' s' where
    tb: "tick_body 3 2 zero_rng initial_state = Inr (effs, rnd', s')"
    using tick_body_sampled [OF q h1 h2, of zero_rng] by blast
  note t = ten_batches_of_ten_thousand [of zero_rng 3 2 zero_rng initial_state effs rnd' s']
  have "draws effs \<noteq> [] \<and> length (draws effs) \<le> 1" using t tb q by blast
  then show ?thesis using tb q by blast
qed

text \<open>
  Claim C9, as amended. For every \<open>N \<ge> 1\<close> and every batch size that is absent or at
  least 1, every division \<open>inside_total / samples_done\<close> computed in a run has
  \<open>samples_done \<ge> 1\<close>, and every batch drawn has at least one point. In particular an
  iteration that starts with \<open>samples_done = 0\<close> and an empty queue (the first one after a
  start) draws a batch of \<open>min batch_size N \<ge> 1\<close> points before it divides. The default
  batch size is at least 1.
\<close>

theorem estimate_division_defined:
  assumes "1 \<le> N" and "1 \<le> effective_batch_size N batch"
    and "r = monte_carlo_pi_animation N batch rnd es"
  shows "(\<forall>i d. Divided i d \<in> set (effects r) \<longrightarrow> 1 \<le> d)
         \<and> (\<forall>b k i d. Drew b k i d \<in> set (effects r) \<longrightarrow> 1 \<le> b)
         \<and> 1 \<le> effective_batch_size N None
         \<and> (samples_done s = 0 \<and> point_queue s = [] \<longrightarrow>
              1 \<le> min (effective_batch_size N batch) N
              \<and> (\<exists>k rnd' s'. tick_body N (effective_batch_size N batch) rnd2 s
                    = Inr ([Drew (min (effective_batch_size N batch) N) k (inside_total s + k)
                              (min (effective_batch_size N batch) N),
                            Divided (inside_total s + k)
                              (min (effective_batch_size N batch) N)], rnd', s')))"
proof -
  note ss = run_sampled_some [OF assms(1,2), of rnd es]
  have a: "\<forall>i d. Divided i d \<in> set (effects r) \<longrightarrow> 1 \<le> d"
  proof (intro allI impI)
    fix i d
    assume "Divided i d \<in> set (effects r)"
    then have "Divided i d
      \<in> set (effects (main_loop N (effective_batch_size N batch) rnd [] initial_state es))"
      by (simp add: assms(3) animation_loop)
    with ss have "case Divided i d of Drew b k i d \<Rightarrow> 1 \<le> b \<and> 1 \<le> d | Divided i d \<Rightarrow> 1 \<le> d"
      by (rule bspec)
    then show "1 \<le> d" by simp
  qed
  have b: "\<forall>b k i d. Drew b k i d \<in> set (effects r) \<longrightarrow> 1 \<le> b"
  proof (intro allI impI)
    fix b k i d
    assume "Drew b k i d \<in> set (effects r)"
    then have "Drew b k i d
      \<in> set (effects (main_loop N (effective_batch_size N batch) rnd [] initial_state es))"
      by (simp add: assms(3) animation_loop)
    with ss have "case Drew b k i d of Drew b k i d \<Rightarrow> 1 \<le> b \<and> 1 \<le> d | Divided i d \<Rightarrow> 1 \<le> d"
      by (rule bspec)
    then show "1 \<le> b" by simp
  qed
  have c: "1 \<le> effective_batch_size N None"
    by (simp add: effective_batch_size_def default_batch_size_positive)
  have d: "samples_done s = 0 \<and> point_queue s = [] \<longrightarrow>
              1 \<le> min (effective_batch_size N batch) N
              \<and> (\<exists>k rnd' s'. tick_body N (effective_batch_size N batch) rnd2 s
                    = Inr ([Drew (min (effective_batch_size N batch) N) k (inside_total s + k)
                              (min (effective_batch_size N batch) N),
                            Divided (inside_total s + k)
                              (min (effective_batch_size N batch) N)], rnd', s'))"
  proof
    assume h: "samples_done s = 0 \<and> point_queue s = []"
    define bb where "bb = min (effective_batch_size N batch) N"
    have e: "bb = min (effective_batch_size N batch) (N - samples_done s)"
      using h by (simp add: bb_def)
    have p: "1 \<le> bb" using assms(1,2) by (simp add: bb_def)
    then have nn: "0 \<le> bb" by simp
    from tick_body_sampled [OF conjunct2 [OF h] e nn, of rnd2]
    have "\<exists>k rnd' s'. tick_body N (effective_batch_size N batch) rnd2 s
            = Inr ([Drew bb k (inside_total s + k) bb, Divided (inside_total s + k) bb],
                   rnd', s')"
      using h by auto
    then show "1 \<le> min (effective_batch_size N batch) N
              \<and> (\<exists>k rnd' s'. tick_body N (effective_batch_size N batch) rnd2 s
                    = Inr ([Drew (min (effective_batch_size N batch) N) k (inside_total s + k)
                              (min (effective_batch_size N batch) N),
                            Divided (inside_total s + k)
                              (min (effective_batch_size N batch) N)], rnd', s'))"
      using p unfolding bb_def by simp
  qed
  show ?thesis using a b c d by blast
qed

theorem estimate_division_defined_witness:
  "(1::int) \<le> 3 \<and> 1 \<le> effective_batch_size 3 (Some 2)
   \<and> Divided 2 2 \<in> set (effects (monte_carlo_pi_animation 3 (Some 2) zero_rng
        [click Start, idle, idle]))
   \<and> Drew 1 1 3 3 \<in> set (effects (monte_carlo_pi_animation 3 (Some 2) zero_rng
        [click Start, idle, idle]))
   \<and> samples_done initial_state = 0 \<and> point_queue initial_state = []
   \<and> (\<exists>k rnd' s'. tick_body 3 (effective_batch_size 3 (Some 2)) zero_rng initial_state
          = Inr ([Drew (min (effective_batch_size 3 (Some 2)) 3) k
                    (inside_total initial_state + k) (min (effective_batch_size 3 (Some 2)) 3),
                  Divided (inside_total initial_state + k)
                    (min (effective_batch_size 3 (Some 2)) 3)], rnd', s'))"
proof -
  have p: "(1::int) \<le> 3" by simp
  have q: "1 \<le> effective_batch_size 3 (Some 2)" by (simp add: effective_batch_size_def)
  have e: "effects (monte_carlo_pi_animation 3 (Some 2) zero_rng [click Start, idle, idle])
             = [Drew 2 2 2 2, Divided 2 2, Drew 1 1 3 3, Divided 3 3]"
    by (simp add: animation_loop effective_batch_size_def initial_state_def
        click_def idle_def pause_def start_def tick_body_def sample_batch_def render_def
        Let_def zero_rng_def in_circle_def tagged_def upt_small)
  have m1: "Divided 2 2 \<in> set (effects (monte_carlo_pi_animation 3 (Some 2) zero_rng
        [click Start, idle, idle]))"
    by (simp add: e)
  have m2: "Drew 1 1 3 3 \<in> set (effects (monte_carlo_pi_animation 3 (Some 2) zero_rng
        [click Start, idle, idle]))"
    by (simp add: e)
  have i: "samples_done initial_state = 0 \<and> point_queue initial_state = []"
    by (simp add: initial_state_def)
  note t = estimate_division_defined [OF p q refl, of zero_rng "[click Start, idle, idle]"
      initial_state zero_rng]
  have x: "\<exists>k rnd' s'. tick_body 3 (effective_batch_size 3 (Some 2)) zero_rng initial_state
          = Inr ([Drew (min (effective_batch_size 3 (Some 2)) 3) k
                    (inside_total initial_state + k) (min (effective_batch_size 3 (Some 2)) 3),
                  Divided (inside_total initial_state + k)
                    (min (effective_batch_size 3 (Some 2)) 3)], rnd', s')"
    using t i by blast
  show ?thesis using p q m1 m2 i x by blast
qed

text \<open>
  The claim as stated fails for a batch size of 0, which the command line accepts: the
  first iteration draws an empty batch and divides 0 by 0.
\<close>

theorem estimate_division_by_zero_counterexample:
  "effects (monte_carlo_pi_animation 1 (Some 0) zero_rng [click Start, idle])
     = [Drew 0 0 0 0, Divided 0 0]
   \<and> pi_text (final (monte_carlo_pi_animation 1 (Some 0) zero_rng [click Start, idle]))
       = Some NaN"
  by (simp add: animation_loop effective_batch_size_def initial_state_def
      click_def idle_def pause_def start_def tick_body_def sample_batch_def render_def
      Let_def zero_rng_def in_circle_def tagged_def)

subsection \<open>The queue at the end of a run\<close>

text \<open>
  Claim C10, as amended. The test for exhaustion comes before the drain: an iteration that
  starts running with \<open>samples_done \<ge> N\<close> ends the loop with the queue and the displayed
  points as they were, so the points still queued are never displayed. In a run with a
  target \<open>N > 0\<close> the queue holds at most 299 points at the end of any iteration, so at
  most 299 points of the last batch's subsample are missing from the display.
\<close>

theorem exhaustion_precedes_drain:
  "(running s \<and> N \<le> samples_done s \<longrightarrow>
      outcome (main_loop N batch_size rnd tr s es) = SamplesExhausted
      \<and> effects (main_loop N batch_size rnd tr s es) = tr
      \<and> point_queue (final (main_loop N batch_size rnd tr s es)) = point_queue s
      \<and> disp_x (final (main_loop N batch_size rnd tr s es)) = disp_x s
      \<and> disp_y (final (main_loop N batch_size rnd tr s es)) = disp_y s
      \<and> disp_colors (final (main_loop N batch_size rnd tr s es)) = disp_colors s
      \<and> scatter_offsets (final (main_loop N batch_size rnd tr s es)) = scatter_offsets s)
   \<and> (0 < N2 \<longrightarrow>
        length (point_queue (final (monte_carlo_pi_animation N2 batch rnd2 es2))) \<le> 299)"
proof -
  have a: "running s \<and> N \<le> samples_done s \<longrightarrow>
      outcome (main_loop N batch_size rnd tr s es) = SamplesExhausted
      \<and> effects (main_loop N batch_size rnd tr s es) = tr
      \<and> point_queue (final (main_loop N batch_size rnd tr s es)) = point_queue s
      \<and> disp_x (final (main_loop N batch_size rnd tr s es)) = disp_x s
      \<and> disp_y (final (main_loop N batch_size rnd tr s es)) = disp_y s
      \<and> disp_colors (final (main_loop N batch_size rnd tr s es)) = disp_colors s
      \<and> scatter_offsets (final (main_loop N batch_size rnd tr s es)) = scatter_offsets s"
    by (simp add: exits_when_exhausted)
  have b: "0 < N2 \<longrightarrow>
        length (point_queue (final (monte_carlo_pi_animation N2 batch rnd2 es2))) \<le> 299"
  proof
    assume "0 < N2"
    then have n0: "0 \<le> N2" by simp
    show "length (point_queue (final (monte_carlo_pi_animation N2 batch rnd2 es2))) \<le> 299"
      using run_stats_inv [OF n0, of "effective_batch_size N2 batch" rnd2 es2]
      by (simp add: animation_loop stats_inv_def)
  qed
  show ?thesis using a b by blast
qed

theorem exhaustion_precedes_drain_witness:
  "outcome (main_loop 1 10000 zero_rng []
      (initial_state\<lparr>running := True, samples_done := 1, point_queue := [(0, 0, Blue)]\<rparr>)
      [idle]) = SamplesExhausted
   \<and> point_queue (final (main_loop 1 10000 zero_rng []
      (initial_state\<lparr>running := True, samples_done := 1, point_queue := [(0, 0, Blue)]\<rparr>)
      [idle])) = [(0, 0, Blue)]
   \<and> disp_x (final (main_loop 1 10000 zero_rng []
      (initial_state\<lparr>running := True, samples_done := 1, point_queue := [(0, 0, Blue)]\<rparr>)
      [idle])) = []
   \<and> length (point_queue (final (monte_carlo_pi_animation 399 None zero_rng
        [click Start, idle]))) \<le> 299"
proof -
  have h: "running (initial_state\<lparr>running := True, samples_done := 1,
              point_queue := [(0, 0, Blue)]\<rparr>)
           \<and> 1 \<le> samples_done (initial_state\<lparr>running := True, samples_done := 1,
              point_queue := [(0, 0, Blue)]\<rparr>)"
    by simp
  have p: "(0::int) < 399" by simp
  note t = exhaustion_precedes_drain [of
      "initial_state\<lparr>running := True, samples_done := 1, point_queue := [(0, 0, Blue)]\<rparr>"
      1 10000 zero_rng "[]" "[idle]" 399 None zero_rng "[click Start, idle]"]
  have 1: "outcome (main_loop 1 10000 zero_rng []
      (initial_state\<lparr>running := True, samples_done := 1, point_queue := [(0, 0, Blue)]\<rparr>)
      [idle]) = SamplesExhausted
   \<and> point_queue (final (main_loop 1 10000 zero_rng []
      (initial_state\<lparr>running := True, samples_done := 1, point_queue := [(0, 0, Blue)]\<rparr>)
      [idle])) = point_queue (initial_state\<lparr>running := True, samples_done := 1,
         point_queue := [(0, 0, Blue)]\<rparr>)
   \<and> disp_x (final (main_loop 1 10000 zero_rng []
      (initial_state\<lparr>running := True, samples_done := 1, point_queue := [(0, 0, Blue)]\<rparr>)
      [idle])) = disp_x (initial_state\<lparr>running := True, samples_done := 1,
         point_queue := [(0, 0, Blue)]\<rparr>)"
    using t h by blast
  have 2: "length (point_queue (final (monte_carlo_pi_animation 399 None zero_rng
        [click Start, idle]))) \<le> 299"
    using t p by blast
  show ?thesis using 1 2 by (simp add: initial_state_def)
qed

text \<open>
  The bound of 100 in the claim as stated fails: with 399 samples the only batch has 399
  points and stride 1, one drain moves 100 of them, and the run ends with 299 in the queue.
\<close>

theorem queue_left_at_exit_counterexample:
  "outcome (monte_carlo_pi_animation 399 None zero_rng [click Start, idle])
     = SamplesExhausted
   \<and> length (point_queue (final (monte_carlo_pi_animation 399 None zero_rng
        [click Start, idle]))) = 299
   \<and> draws (effects (monte_carlo_pi_animation 399 None zero_rng [click Start, idle]))
       = [(399, 399)]"
proof -
  have "count_loop 399 10000 [] (False, 0, 0) [click Start, idle]
          = (SamplesExhausted, [(399, 399)], False, 399, 299)"
    by (simp add: click_def idle_def count_tick_def subsample_size_def Let_def)
  then show ?thesis
    using run_counts [of 399 None "[click Start, idle]" zero_rng]
    by (simp add: effective_batch_size_def default_batch_size_def)
qed

subsection \<open>Restart\<close>

text \<open>
  Claim C5, as amended. The restart callback discards the run whatever the state was:
  afterwards \<open>samples_done\<close> and \<open>inside_total\<close> are 0, the displayed points and the queue
  are empty, the loop is not running and the start button is shown; a click on the restart
  button does exactly this. The loop takes the click in its next pause from every state in
  which it has not ended: waiting (idle or paused), or running with samples still to draw
  and a batch size that is not negative. When restart is the last click of that pause and
  the window stays open, the loop proceeds as from a reset state, and right after the pause
  the controller is idle with all counters at 0. In a running iteration that finds the
  samples exhausted the loop ends before any pause: the run is finished, the click is not
  taken and nothing is reset.
\<close>

theorem restart_full_reset:
  "samples_done (restart s) = 0 \<and> inside_total (restart s) = 0
   \<and> disp_x (restart s) = [] \<and> disp_y (restart s) = [] \<and> disp_colors (restart s) = []
   \<and> scatter_offsets (restart s) = [] \<and> scatter_colors (restart s) = []
   \<and> point_queue (restart s) = []
   \<and> \<not> running (restart s) \<and> start_visible (restart s)
   \<and> on_clicked Restart s = restart s
   \<and> pause (click Restart) s = restart s
   \<and> ((\<not> running s \<or> (samples_done s < N \<and> 0 \<le> B))
        \<and> clicks e = cs @ [Restart] \<and> \<not> window_closed e \<longrightarrow>
        (\<exists>rnd' tr' s'. \<forall>es. main_loop N B rnd tr s (e # es)
                                 = main_loop N B rnd' tr' (restart s') es)
        \<and> outcome (main_loop N B rnd tr s [e]) = AwaitingEvents
        \<and> controller_state (main_loop N B rnd tr s [e]) = Idle
        \<and> samples_done (final (main_loop N B rnd tr s [e])) = 0
        \<and> inside_total (final (main_loop N B rnd tr s [e])) = 0
        \<and> disp_x (final (main_loop N B rnd tr s [e])) = []
        \<and> disp_y (final (main_loop N B rnd tr s [e])) = []
        \<and> disp_colors (final (main_loop N B rnd tr s [e])) = []
        \<and> point_queue (final (main_loop N B rnd tr s [e])) = [])
   \<and> (running s \<and> N \<le> samples_done s \<longrightarrow>
        controller_state (main_loop N B rnd tr s (e # es)) = Finished
        \<and> final (main_loop N B rnd tr s (e # es)) = s\<lparr>running := False\<rparr>)"
proof -
  have a: "samples_done (restart s) = 0 \<and> inside_total (restart s) = 0
   \<and> disp_x (restart s) = [] \<and> disp_y (restart s) = [] \<and> disp_colors (restart s) = []
   \<and> scatter_offsets (restart s) = [] \<and> scatter_colors (restart s) = []
   \<and> point_queue (restart s) = []
   \<and> \<not> running (restart s) \<and> start_visible (restart s)
   \<and> on_clicked Restart s = restart s
   \<and> pause (click Restart) s = restart s"
    by (simp add: restart_def pause_def click_def)
  have b: "(\<not> running s \<or> (samples_done s < N \<and> 0 \<le> B))
        \<and> clicks e = cs @ [Restart] \<and> \<not> window_closed e \<longrightarrow>
        (\<exists>rnd' tr' s'. \<forall>es. main_loop N B rnd tr s (e # es)
                                 = main_loop N B rnd' tr' (restart s') es)
        \<and> outcome (main_loop N B rnd tr s [e]) = AwaitingEvents
        \<and> controller_state (main_loop N B rnd tr s [e]) = Idle
        \<and> samples_done (final (main_loop N B rnd tr s [e])) = 0
        \<and> inside_total (final (main_loop N B rnd tr s [e])) = 0
        \<and> disp_x (final (main_loop N B rnd tr s [e])) = []
        \<and> disp_y (final (main_loop N B rnd tr s [e])) = []
        \<and> disp_colors (final (main_loop N B rnd tr s [e])) = []
        \<and> point_queue (final (main_loop N B rnd tr s [e])) = []"
  proof
    assume h: "(\<not> running s \<or> (samples_done s < N \<and> 0 \<le> B))
        \<and> clicks e = cs @ [Restart] \<and> \<not> window_closed e"
    then have h1: "\<not> running s \<or> (samples_done s < N \<and> 0 \<le> B)"
      and h2: "clicks e = cs @ [Restart]" and h3: "\<not> window_closed e"
      by simp_all
    from restart_continues [OF h1 h2 h3] obtain rnd' tr' s' where
      c: "\<forall>es. main_loop N B rnd tr s (e # es) = main_loop N B rnd' tr' (restart s') es"
      by blast
    then have "main_loop N B rnd tr s [e] = main_loop N B rnd' tr' (restart s') []"
      by blast
    also have "\<dots> = \<lparr>outcome = AwaitingEvents, effects = tr', final = restart s',
                      window = Open\<rparr>"
      by (simp add: restart_def)
    finally have r: "main_loop N B rnd tr s [e]
      = \<lparr>outcome = AwaitingEvents, effects = tr', final = restart s', window = Open\<rparr>" .
    have "outcome (main_loop N B rnd tr s [e]) = AwaitingEvents
        \<and> controller_state (main_loop N B rnd tr s [e]) = Idle
        \<and> samples_done (final (main_loop N B rnd tr s [e])) = 0
        \<and> inside_total (final (main_loop N B rnd tr s [e])) = 0
        \<and> disp_x (final (main_loop N B rnd tr s [e])) = []
        \<and> disp_y (final (main_loop N B rnd tr s [e])) = []
        \<and> disp_colors (final (main_loop N B rnd tr s [e])) = []
        \<and> point_queue (final (main_loop N B rnd tr s [e])) = []"
      unfolding r by (simp add: controller_state_def restart_def)
    then show "(\<exists>rnd' tr' s'. \<forall>es. main_loop N B rnd tr s (e # es)
                                 = main_loop N B rnd' tr' (restart s') es)
        \<and> outcome (main_loop N B rnd tr s [e]) = AwaitingEvents
        \<and> controller_state (main_loop N B rnd tr s [e]) = Idle
        \<and> samples_done (final (main_loop N B rnd tr s [e])) = 0
        \<and> inside_total (final (main_loop N B rnd tr s [e])) = 0
        \<and> disp_x (final (main_loop N B rnd tr s [e])) = []
        \<and> disp_y (final (main_loop N B rnd tr s [e])) = []
        \<and> disp_colors (final (main_loop N B rnd tr s [e])) = []
        \<and> point_queue (final (main_loop N B rnd tr s [e])) = []"
      using c by blast
  qed
  have c: "running s \<and> N \<le> samples_done s \<longrightarrow>
        controller_state (main_loop N B rnd tr s (e # es)) = Finished
        \<and> final (main_loop N B rnd tr s (e # es)) = s\<lparr>running := False\<rparr>"
    by (simp add: exits_when_exhausted controller_state_def)
  show ?thesis using a b c by blast
qed

theorem restart_full_reset_witness:
  "controller_state (main_loop 10 10000 zero_rng []
      (initial_state\<lparr>samples_done := 5, inside_total := 3, start_visible := False\<rparr>)
      [click Restart]) = Idle
   \<and> samples_done (final (main_loop 10 10000 zero_rng []
      (initial_state\<lparr>samples_done := 5, inside_total := 3, start_visible := False\<rparr>)
      [click Restart])) = 0
   \<and> controller_state (main_loop 10 10000 zero_rng []
      (initial_state\<lparr>running := True, samples_done := 5, inside_total := 3\<rparr>)
      [click Restart]) = Idle
   \<and> inside_total (final (main_loop 10 10000 zero_rng []
      (initial_state\<lparr>running := True, samples_done := 5, inside_total := 3\<rparr>)
      [click Restart])) = 0
   \<and> controller_state (main_loop 10 10000 zero_rng []
      (initial_state\<lparr>running := True, samples_done := 10, inside_total := 3\<rparr>)
      [click Restart]) = Finished
   \<and> samples_done (final (main_loop 10 10000 zero_rng []
      (initial_state\<lparr>running := True, samples_done := 10, inside_total := 3\<rparr>)
      [click Restart])) = 10"
proof -
  let ?paused = "initial_state\<lparr>samples_done := 5, inside_total := 3, start_visible := False\<rparr>"
  let ?sampling = "initial_state\<lparr>running := True, samples_done := 5, inside_total := 3\<rparr>"
  let ?done = "initial_state\<lparr>running := True, samples_done := 10, inside_total := 3\<rparr>"
  have h1: "(\<not> running ?paused \<or> (samples_done ?paused < 10 \<and> (0::int) \<le> 10000))
            \<and> clicks (click Restart) = [] @ [Restart] \<and> \<not> window_closed (click Restart)"
    by (simp add: initial_state_def click_def)
  have h2: "(\<not> running ?sampling \<or> (samples_done ?sampling < 10 \<and> (0::int) \<le> 10000))
            \<and> clicks (click Restart) = [] @ [Restart] \<and> \<not> window_closed (click Restart)"
    by (simp add: click_def)
  have h3: "running ?done \<and> 10 \<le> samples_done ?done"
    by simp
  note t1 = restart_full_reset [where s = ?paused and N = 10 and B = 10000 and rnd = zero_rng
      and tr = "[]" and es = "[]" and e = "click Restart" and cs = "[]"]
  note t2 = restart_full_reset [where s = ?sampling and N = 10 and B = 10000 and rnd = zero_rng
      and tr = "[]" and es = "[]" and e = "click Restart" and cs = "[]"]
  note t3 = restart_full_reset [where s = ?done and N = 10 and B = 10000 and rnd = zero_rng
      and tr = "[]" and es = "[]" and e = "click Restart" and cs = "[]"]
  have 1: "controller_state (main_loop 10 10000 zero_rng [] ?paused [click Restart]) = Idle
      \<and> samples_done (final (main_loop 10 10000 zero_rng [] ?paused [click Restart])) = 0"
    using t1 h1 by blast
  have 2: "controller_state (main_loop 10 10000 zero_rng [] ?sampling [click Restart]) = Idle
      \<and> inside_total (final (main_loop 10 10000 zero_rng [] ?sampling [click Restart])) = 0"
    using t2 h2 by blast
  have 3: "controller_state (main_loop 10 10000 zero_rng [] ?done [click Restart]) = Finished
      \<and> final (main_loop 10 10000 zero_rng [] ?done [click Restart]) = ?done\<lparr>running := False\<rparr>"
    using t3 h3 by blast
  then have 4: "samples_done (final (main_loop 10 10000 zero_rng [] ?done [click Restart])) = 10"
    by simp
  show ?thesis using 1 2 3 4 by blast
qed

text \<open>
  The claim as stated fails for the finished state. With one sample the run is finished
  after the start click and one more pause; a click on restart delivered after that is never
  taken: the run is the same with it, still finished, with \<open>samples_done = 1\<close>.
\<close>

theorem restart_after_finish_counterexample:
  "controller_state (monte_carlo_pi_animation 1 None zero_rng [click Start, idle]) = Finished
   \<and> controller_state (monte_carlo_pi_animation 1 None zero_rng
        [click Start, idle, click Restart, idle, idle]) = Finished
   \<and> samples_done (final (monte_carlo_pi_animation 1 None zero_rng
        [click Start, idle, click Restart, idle, idle])) = 1
   \<and> monte_carlo_pi_animation 1 None zero_rng [click Start, idle, click Restart, idle, idle]
       = monte_carlo_pi_animation 1 None zero_rng [click Start, idle]"
proof -
  have "count_loop 1 10000 [] (False, 0, 0) [click Start, idle]
          = (SamplesExhausted, [(1, 1)], False, 1, 0)"
    by (simp add: click_def idle_def count_tick_def subsample_size_def Let_def)
  then have a: "outcome (monte_carlo_pi_animation 1 None zero_rng [click Start, idle])
                  = SamplesExhausted
     \<and> samples_done (final (monte_carlo_pi_animation 1 None zero_rng [click Start, idle])) = 1"
    using run_counts [of 1 None "[click Start, idle]" zero_rng]
    by (simp add: effective_batch_size_def default_batch_size_def)
  then have o: "outcome (main_loop 1 (effective_batch_size 1 None) zero_rng [] initial_state
                  [click Start, idle]) = SamplesExhausted"
    by (simp add: animation_loop)
  from exhausted_prefix [OF o] obtain k where k: "k \<le> length [click Start, idle]"
    "\<forall>rest. main_loop 1 (effective_batch_size 1 None) zero_rng [] initial_state
              (take k [click Start, idle] @ rest)
          = main_loop 1 (effective_batch_size 1 None) zero_rng [] initial_state
              [click Start, idle]"
    by blast
  have "main_loop 1 (effective_batch_size 1 None) zero_rng [] initial_state
          (take k [click Start, idle] @ drop k [click Start, idle] @ [click Restart, idle, idle])
        = main_loop 1 (effective_batch_size 1 None) zero_rng [] initial_state
              [click Start, idle]"
    using k(2) by blast
  then have "main_loop 1 (effective_batch_size 1 None) zero_rng [] initial_state
          [click Start, idle, click Restart, idle, idle]
        = main_loop 1 (effective_batch_size 1 None) zero_rng [] initial_state
              [click Start, idle]"
    by (simp only: append_assoc [symmetric] append_take_drop_id) simp
  then have e: "monte_carlo_pi_animation 1 None zero_rng
        [click Start, idle, click Restart, idle, idle]
       = monte_carlo_pi_animation 1 None zero_rng [click Start, idle]"
    by (simp add: monte_carlo_pi_animation_def)
  show ?thesis using a e by (simp add: controller_state_def)
qed

subsection \<open>The run to its end\<close>

text \<open>
  Claim C3, as amended. Once \<open>samples_done\<close> has reached the target at the start of a
  running iteration, the loop sets \<open>running\<close> to false and ends at once, with the window
  still open: nothing more is sampled, drained or rendered, the other variables keep their
  values, and the pause inputs still to come (clicks on stop, resume or restart, or the
  closing of the window) are never looked at. The function then closes the window itself
  and returns, and the process ends with exit status 0. So a run that ends this way with a
  target \<open>N > 0\<close> ends with \<open>samples_done = N\<close>, not running, the window closed by the
  program and exit status 0; it is fixed by the pause inputs consumed up to then, in none
  of which the user had closed the window, whatever inputs would follow.
\<close>

theorem finished_ends_the_run:
  "(running s \<and> N \<le> samples_done s \<longrightarrow>
      main_loop N batch_size rnd tr s es
        = \<lparr>outcome = SamplesExhausted, effects = tr, final = s\<lparr>running := False\<rparr>,
           window = Open\<rparr>
      \<and> main_loop N batch_size rnd tr s es = main_loop N batch_size rnd tr s [])
   \<and> (0 < N \<and> outcome (monte_carlo_pi_animation N batch rnd2 es2) = SamplesExhausted \<longrightarrow>
        samples_done (final (monte_carlo_pi_animation N batch rnd2 es2)) = N
        \<and> \<not> running (final (monte_carlo_pi_animation N batch rnd2 es2))
        \<and> window (monte_carlo_pi_animation N batch rnd2 es2) = ClosedByProgram
        \<and> exit_status (Ran (monte_carlo_pi_animation N batch rnd2 es2)) = Some 0
        \<and> (\<exists>k\<le>length es2.
              (\<forall>e\<in>set (take k es2). \<not> window_closed e)
              \<and> (\<forall>rest. monte_carlo_pi_animation N batch rnd2 (take k es2 @ rest)
                          = monte_carlo_pi_animation N batch rnd2 es2)))"
proof -
  have a: "running s \<and> N \<le> samples_done s \<longrightarrow>
      main_loop N batch_size rnd tr s es
        = \<lparr>outcome = SamplesExhausted, effects = tr, final = s\<lparr>running := False\<rparr>,
           window = Open\<rparr>
      \<and> main_loop N batch_size rnd tr s es = main_loop N batch_size rnd tr s []"
  proof
    assume h: "running s \<and> N \<le> samples_done s"
    then have 1: "main_loop N batch_size rnd tr s es
        = \<lparr>outcome = SamplesExhausted, effects = tr, final = s\<lparr>running := False\<rparr>,
           window = Open\<rparr>"
      by (simp add: exits_when_exhausted)
    from h have 2: "main_loop N batch_size rnd tr s []
        = \<lparr>outcome = SamplesExhausted, effects = tr, final = s\<lparr>running := False\<rparr>,
           window = Open\<rparr>"
      by (simp add: exits_when_exhausted)
    show "main_loop N batch_size rnd tr s es
        = \<lparr>outcome = SamplesExhausted, effects = tr, final = s\<lparr>running := False\<rparr>,
           window = Open\<rparr>
      \<and> main_loop N batch_size rnd tr s es = main_loop N batch_size rnd tr s []"
      using 1 2 by simp
  qed
  have b: "0 < N \<and> outcome (monte_carlo_pi_animation N batch rnd2 es2) = SamplesExhausted \<longrightarrow>
        samples_done (final (monte_carlo_pi_animation N batch rnd2 es2)) = N
        \<and> \<not> running (final (monte_carlo_pi_animation N batch rnd2 es2))
        \<and> window (monte_carlo_pi_animation N batch rnd2 es2) = ClosedByProgram
        \<and> exit_status (Ran (monte_carlo_pi_animation N batch rnd2 es2)) = Some 0
        \<and> (\<exists>k\<le>length es2.
              (\<forall>e\<in>set (take k es2). \<not> window_closed e)
              \<and> (\<forall>rest. monte_carlo_pi_animation N batch rnd2 (take k es2 @ rest)
                          = monte_carlo_pi_animation N batch rnd2 es2))"
  proof
    assume h: "0 < N \<and> outcome (monte_carlo_pi_animation N batch rnd2 es2) = SamplesExhausted"
    then have n0: "0 \<le> N" by simp
    from h have oa: "outcome (monte_carlo_pi_animation N batch rnd2 es2) = SamplesExhausted"
      by simp
    have o: "outcome (main_loop N (effective_batch_size N batch) rnd2 [] initial_state es2)
               = SamplesExhausted"
      using h by (simp add: animation_loop)
    have le: "samples_done (final (monte_carlo_pi_animation N batch rnd2 es2)) \<le> N"
      using run_stats_inv [OF n0, of "effective_batch_size N batch" rnd2 es2]
      by (simp add: animation_loop stats_inv_def)
    have ge: "N \<le> samples_done (final (monte_carlo_pi_animation N batch rnd2 es2))"
      using exhausted_reached [OF o] by (simp add: animation_loop)
    have nr: "\<not> running (final (monte_carlo_pi_animation N batch rnd2 es2))"
      using exhausted_not_running [OF o] by (simp add: animation_loop)
    have w: "window (monte_carlo_pi_animation N batch rnd2 es2) = ClosedByProgram"
      using oa by (rule animation_window)
    have x: "exit_status (Ran (monte_carlo_pi_animation N batch rnd2 es2)) = Some 0"
      using oa by (simp add: exit_status_def)
    from exhausted_prefix [OF o] obtain k where k: "k \<le> length es2"
      "\<forall>e\<in>set (take k es2). \<not> window_closed e"
      "\<forall>rest. main_loop N (effective_batch_size N batch) rnd2 [] initial_state
                 (take k es2 @ rest)
             = main_loop N (effective_batch_size N batch) rnd2 [] initial_state es2"
      by blast
    have "\<forall>rest. monte_carlo_pi_animation N batch rnd2 (take k es2 @ rest)
                  = monte_carlo_pi_animation N batch rnd2 es2"
      using k(3) by (simp add: monte_carlo_pi_animation_def)
    then have p: "\<exists>k\<le>length es2.
              (\<forall>e\<in>set (take k es2). \<not> window_closed e)
              \<and> (\<forall>rest. monte_carlo_pi_animation N batch rnd2 (take k es2 @ rest)
                          = monte_carlo_pi_animation N batch rnd2 es2)"
      using k(1,2) by blast
    have sd: "samples_done (final (monte_carlo_pi_animation N batch rnd2 es2)) = N"
      using le ge by simp
    show "samples_done (final (monte_carlo_pi_animation N batch rnd2 es2)) = N
        \<and> \<not> running (final (monte_carlo_pi_animation N batch rnd2 es2))
        \<and> window (monte_carlo_pi_animation N batch rnd2 es2) = ClosedByProgram
        \<and> exit_status (Ran (monte_carlo_pi_animation N batch rnd2 es2)) = Some 0
        \<and> (\<exists>k\<le>length es2.
              (\<forall>e\<in>set (take k es2). \<not> window_closed e)
              \<and> (\<forall>rest. monte_carlo_pi_animation N batch rnd2 (take k es2 @ rest)
                          = monte_carlo_pi_animation N batch rnd2 es2))"
      using sd nr w x p by blast
  qed
  show ?thesis using a b by blast
qed

theorem finished_ends_the_run_witness:
  "main_loop 1 10000 zero_rng [] (initial_state\<lparr>running := True, samples_done := 1\<rparr>)
      [click Restart, click Resume]
     = \<lparr>outcome = SamplesExhausted, effects = [],
        final = initial_state\<lparr>running := False, samples_done := 1\<rparr>, window = Open\<rparr>
   \<and> outcome (monte_carlo_pi_animation 1 None zero_rng [click Start, idle, click Restart])
       = SamplesExhausted
   \<and> samples_done (final (monte_carlo_pi_animation 1 None zero_rng
       [click Start, idle, click Restart])) = 1
   \<and> window (monte_carlo_pi_animation 1 None zero_rng [click Start, idle, click Restart])
       = ClosedByProgram
   \<and> exit_status (Ran (monte_carlo_pi_animation 1 None zero_rng
       [click Start, idle, click Restart])) = Some 0"
proof -
  have h: "running (initial_state\<lparr>running := True, samples_done := 1\<rparr>)
           \<and> 1 \<le> samples_done (initial_state\<lparr>running := True, samples_done := 1\<rparr>)"
    by simp
  have "count_loop 1 10000 [] (False, 0, 0) [click Start, idle, click Restart]
          = (SamplesExhausted, [(1, 1)], False, 1, 0)"
    by (simp add: click_def idle_def count_tick_def subsample_size_def Let_def)
  then have o: "outcome (monte_carlo_pi_animation 1 None zero_rng
       [click Start, idle, click Restart]) = SamplesExhausted"
    using run_counts [of 1 None "[click Start, idle, click Restart]" zero_rng]
    by (simp add: effective_batch_size_def default_batch_size_def)
  have p: "(0::int) < 1" by simp
  note t = finished_ends_the_run [of "initial_state\<lparr>running := True, samples_done := 1\<rparr>" 1
      10000 zero_rng "[]" "[click Restart, click Resume]" None zero_rng
      "[click Start, idle, click Restart]"]
  have 1: "main_loop 1 10000 zero_rng [] (initial_state\<lparr>running := True, samples_done := 1\<rparr>)
      [click Restart, click Resume]
     = \<lparr>outcome = SamplesExhausted, effects = [],
        final = initial_state\<lparr>running := True, samples_done := 1\<rparr>\<lparr>running := False\<rparr>,
        window = Open\<rparr>"
    using t h by blast
  have 2: "samples_done (final (monte_carlo_pi_animation 1 None zero_rng
       [click Start, idle, click Restart])) = 1
     \<and> window (monte_carlo_pi_animation 1 None zero_rng [click Start, idle, click Restart])
       = ClosedByProgram
     \<and> exit_status (Ran (monte_carlo_pi_animation 1 None zero_rng
       [click Start, idle, click Restart])) = Some 0"
    using t p o by blast
  show ?thesis using 1 2 o by simp
qed

text \<open>
  The claim as stated fails: in this run the window is never closed by the user, yet the
  function returns with the samples exhausted, the window closed by the program and exit
  status 0; and the click on restart that arrives after the last batch is never processed,
  so nothing is reset.
\<close>

theorem finished_without_window_close_counterexample:
  "outcome (monte_carlo_pi_animation 1 None zero_rng [click Start, idle, click Restart])
     = SamplesExhausted
   \<and> \<not> window_closed (click Start) \<and> \<not> window_closed idle \<and> \<not> window_closed (click Restart)
   \<and> samples_done (final (monte_carlo_pi_animation 1 None zero_rng
       [click Start, idle, click Restart])) = 1
   \<and> samples_done (restart (final (monte_carlo_pi_animation 1 None zero_rng
       [click Start, idle, click Restart]))) = 0
   \<and> window (monte_carlo_pi_animation 1 None zero_rng [click Start, idle, click Restart])
       = ClosedByProgram
   \<and> exit_status (main (Namespace (ascii ''1'') None) zero_rng
       [click Start, idle, click Restart]) = Some 0"
proof -
  have "count_loop 1 10000 [] (False, 0, 0) [click Start, idle, click Restart]
          = (SamplesExhausted, [(1, 1)], False, 1, 0)"
    by (simp add: click_def idle_def count_tick_def subsample_size_def Let_def)
  then have a: "outcome (monte_carlo_pi_animation 1 None zero_rng
       [click Start, idle, click Restart]) = SamplesExhausted
     \<and> samples_done (final (monte_carlo_pi_animation 1 None zero_rng
       [click Start, idle, click Restart])) = 1"
    using run_counts [of 1 None "[click Start, idle, click Restart]" zero_rng]
    by (simp add: effective_batch_size_def default_batch_size_def)
  then have w: "window (monte_carlo_pi_animation 1 None zero_rng
       [click Start, idle, click Restart]) = ClosedByProgram"
    by (simp add: animation_window)
  have m: "main (Namespace (ascii ''1'') None) zero_rng [click Start, idle, click Restart]
             = Ran (monte_carlo_pi_animation 1 None zero_rng [click Start, idle, click Restart])"
    by (simp add: main_def ascii_def remove_char_def py_int_def to_ascii_def is_space_def
        in_number_def is_digit_def digit_value_def max_str_digits_def Let_def)
  have x: "exit_status (main (Namespace (ascii ''1'') None) zero_rng
       [click Start, idle, click Restart]) = Some 0"
    unfolding m using a by (simp add: exit_status_def)
  show ?thesis using a w x by (simp add: click_def idle_def restart_def)
qed

subsection \<open>The command line\<close>




end
